theory Spec2Isabelle
  imports Complex_Main "HOL-Library.Sublist" "HOL-Library.Log_Nat"
begin

section \<open>Strings of the Python runtime\<close>

text \<open>
  The statement parser \<^verbatim>\<open>scripts/parse_pdf.py\<close> works on Python \<^verbatim>\<open>str\<close> values.
  A \<^typ>\<open>char\<close> stands for the code point of the same number, so the model covers
  the texts whose code points lie below 256; the character classes below are the ones
  CPython uses on that range. \<^verbatim>\<open>needle in text\<close> is \<^term>\<open>sublist needle text\<close>.
\<close>

definition code_point :: "char \<Rightarrow> nat" where
  "code_point c = of_char c"

text \<open>\<^verbatim>\<open>str.isspace\<close>, also the class \<^verbatim>\<open>\s\<close> of \<^verbatim>\<open>re\<close> and what \<^verbatim>\<open>str.strip()\<close> removes.\<close>

definition is_space :: "char \<Rightarrow> bool" where
  "is_space c =
     (let n = code_point c
      in (9 \<le> n \<and> n \<le> 13) \<or> (28 \<le> n \<and> n \<le> 32) \<or> n = 133 \<or> n = 160)"

text \<open>The white space that \<^verbatim>\<open>int()\<close> and \<^verbatim>\<open>float()\<close> skip around a literal.\<close>

definition is_number_space :: "char \<Rightarrow> bool" where
  "is_number_space c =
     (let n = code_point c in (9 \<le> n \<and> n \<le> 13) \<or> n = 32 \<or> n = 133 \<or> n = 160)"

definition is_digit :: "char \<Rightarrow> bool" where
  "is_digit c = (let n = code_point c in 48 \<le> n \<and> n \<le> 57)"

text \<open>The class \<^verbatim>\<open>\w\<close>: alphanumeric code points and the underscore.\<close>

definition is_word :: "char \<Rightarrow> bool" where
  "is_word c =
     (let n = code_point c
      in (48 \<le> n \<and> n \<le> 57) \<or> (65 \<le> n \<and> n \<le> 90) \<or> n = 95 \<or> (97 \<le> n \<and> n \<le> 122)
         \<or> n = 170 \<or> n = 178 \<or> n = 179 \<or> n = 181 \<or> n = 185 \<or> n = 186
         \<or> (188 \<le> n \<and> n \<le> 190) \<or> (192 \<le> n \<and> n \<le> 214) \<or> (216 \<le> n \<and> n \<le> 246)
         \<or> 248 \<le> n)"

definition newline :: char where
  "newline = CHR 0x0A"

text \<open>\<^verbatim>\<open>s.strip()\<close>\<close>

definition py_strip :: "string \<Rightarrow> string" where
  "py_strip s = rev (dropWhile is_space (rev (dropWhile is_space s)))"

text \<open>\<^verbatim>\<open>s.replace('\n', r)\<close>\<close>

definition replace_newline :: "string \<Rightarrow> string \<Rightarrow> string" where
  "replace_newline r s = concat (map (\<lambda>c. if c = newline then r else [c]) s)"

text \<open>\<^verbatim>\<open>s.split('\n')\<close>: one more piece than there are newlines.\<close>

fun split_lines :: "string \<Rightarrow> string list" where
  "split_lines [] = [[]]"
| "split_lines (c # cs) =
     (if c = newline then [] # split_lines cs
      else (case split_lines cs of [] \<Rightarrow> [[c]] | l # ls \<Rightarrow> (c # l) # ls))"

text \<open>\<^verbatim>\<open>'\n'.join(lines)\<close>\<close>

fun join_lines :: "string list \<Rightarrow> string" where
  "join_lines [] = []"
| "join_lines [l] = l"
| "join_lines (l # ls) = l @ newline # join_lines ls"

text \<open>
  \<^verbatim>\<open>s.upper()\<close>. The sharp s becomes \<^verbatim>\<open>SS\<close>; the micro sign and the y with diaeresis
  have upper-case forms beyond code point 255 and are kept as they are (neither form is
  an ASCII letter).
\<close>

definition upper_char :: "char \<Rightarrow> string" where
  "upper_char c =
     (let n = code_point c
      in if 97 \<le> n \<and> n \<le> 122 then [char_of (n - 32)]
         else if n = 223 then ''SS''
         else if 224 \<le> n \<and> n \<le> 254 \<and> n \<noteq> 247 then [char_of (n - 32)]
         else [c])"

definition py_upper :: "string \<Rightarrow> string" where
  "py_upper s = concat (map upper_char s)"

definition lower_ascii :: "char \<Rightarrow> char" where
  "lower_ascii c = (let n = code_point c in if 65 \<le> n \<and> n \<le> 90 then char_of (n + 32) else c)"

section \<open>Numbers of the Python runtime\<close>

definition digit_val :: "char \<Rightarrow> nat" where
  "digit_val c = code_point c - 48"

definition digits_val :: "string \<Rightarrow> nat" where
  "digits_val ds = foldl (\<lambda>a c. 10 * a + digit_val c) 0 ds"

text \<open>
  A run of digits in which single underscores may separate digits (\<^verbatim>\<open>1_000\<close>), as
  \<^verbatim>\<open>int()\<close> and \<^verbatim>\<open>float()\<close> accept it; the result is the digits alone.
\<close>

fun digitpart :: "string \<Rightarrow> string option" where
  "digitpart [] = None"
| "digitpart [c] = (if is_digit c then Some [c] else None)"
| "digitpart (c # d # cs) =
     (if \<not> is_digit c then None
      else if d = CHR ''_'' then map_option ((#) c) (digitpart cs)
      else map_option ((#) c) (digitpart (d # cs)))"

definition strip_number_space :: "string \<Rightarrow> string" where
  "strip_number_space s = rev (dropWhile is_number_space (rev (dropWhile is_number_space s)))"

text \<open>
  The digits of \<^verbatim>\<open>int(s)\<close>: CPython (from 3.11 on) refuses a text of more than 4300
  digits with a \<^verbatim>\<open>ValueError\<close>, as it does a text that is no run of digits.
\<close>

definition int_digits :: "string \<Rightarrow> nat option" where
  "int_digits s =
     (case digitpart s of
        None \<Rightarrow> None
      | Some ds \<Rightarrow> if 4300 < length ds then None else Some (digits_val ds))"

text \<open>\<^verbatim>\<open>int(s)\<close> in base ten; \<^term>\<open>None\<close> is the \<^verbatim>\<open>ValueError\<close>.\<close>

definition py_int :: "string \<Rightarrow> int option" where
  "py_int s =
     (case strip_number_space s of
        [] \<Rightarrow> None
      | c # cs \<Rightarrow>
          if c = CHR ''-'' then map_option (\<lambda>n. - int n) (int_digits cs)
          else if c = CHR ''+'' then map_option int (int_digits cs)
          else map_option int (int_digits (c # cs)))"

text \<open>
  A Python \<^verbatim>\<open>float\<close> is an IEEE binary64 number: \<^term>\<open>Finite q\<close> is the number whose
  exact value is \<open>q\<close> (so \<^term>\<open>Finite 0\<close> is \<^verbatim>\<open>0.0\<close>), \<^term>\<open>NegZero\<close> is \<^verbatim>\<open>-0.0\<close>.
\<close>

datatype pyfloat = Finite rat | NegZero | PosInf | NegInf | NaN

text \<open>The exponent \<open>e\<close> with \<open>2\<^sup>e \<le> a < 2\<^sup>e\<^sup>+\<^sup>1\<close>, for a positive \<open>a\<close>.\<close>

definition binade :: "rat \<Rightarrow> int" where
  "binade a =
     (let (p, q) = quotient_of a;
          k = int (floorlog 2 (nat p)) - int (floorlog 2 (nat q))
      in if 2 powi k \<le> a then k else k - 1)"

definition round_half_even :: "rat \<Rightarrow> int" where
  "round_half_even x =
     (let n = \<lfloor>x\<rfloor>; r = x - of_int n
      in if r < 1 / 2 then n else if 1 / 2 < r then n + 1 else if even n then n else n + 1)"

text \<open>
  Rounding of a decimal value to the nearest binary64 number, ties to even, as the
  string conversion of CPython does: 53 significant bits, least exponent \<open>-1022\<close>,
  overflow to infinity. The first argument is the sign of the literal.
\<close>

definition to_binary64 :: "bool \<Rightarrow> rat \<Rightarrow> pyfloat" where
  "to_binary64 neg a =
     (if a = 0 then (if neg then NegZero else Finite 0)
      else
        let e = max (binade a) (- 1022);
            u = 2 powi (e - 52);
            v = of_int (round_half_even (a / u)) * u
        in if 2 powi 1024 \<le> v then (if neg then NegInf else PosInf)
           else if v = 0 then (if neg then NegZero else Finite 0)
           else Finite (if neg then - v else v))"

text \<open>The mantissa \<^verbatim>\<open>[digitpart] "." digitpart | digitpart ["."]\<close>: its value.\<close>

definition mantissa_val :: "string \<Rightarrow> rat option" where
  "mantissa_val m =
     (let ip = takeWhile (\<lambda>c. c \<noteq> CHR ''.'') m; rest = dropWhile (\<lambda>c. c \<noteq> CHR ''.'') m
      in case rest of
           [] \<Rightarrow> map_option (\<lambda>ds. of_nat (digits_val ds)) (digitpart ip)
         | _ # fp \<Rightarrow>
             if fp = [] then map_option (\<lambda>ds. of_nat (digits_val ds)) (digitpart ip)
             else (case digitpart fp of
                     None \<Rightarrow> None
                   | Some fs \<Rightarrow>
                       if ip = [] then Some (of_nat (digits_val fs) / 10 ^ length fs)
                       else map_option
                              (\<lambda>ds. of_nat (digits_val (ds @ fs)) / 10 ^ length fs)
                              (digitpart ip)))"

text \<open>The exponent \<^verbatim>\<open>[sign] digitpart\<close> after the marker.\<close>

definition exponent_val :: "string \<Rightarrow> int option" where
  "exponent_val x =
     (case x of
        [] \<Rightarrow> None
      | c # cs \<Rightarrow>
          if c = CHR ''-'' then map_option (\<lambda>ds. - int (digits_val ds)) (digitpart cs)
          else if c = CHR ''+'' then map_option (\<lambda>ds. int (digits_val ds)) (digitpart cs)
          else map_option (\<lambda>ds. int (digits_val ds)) (digitpart (c # cs)))"

definition is_exp_marker :: "char \<Rightarrow> bool" where
  "is_exp_marker c = (c = CHR ''e'' \<or> c = CHR ''E'')"

text \<open>An unsigned literal: \<^verbatim>\<open>inf\<close>, \<^verbatim>\<open>infinity\<close>, \<^verbatim>\<open>nan\<close> in any case, or a decimal number.\<close>

definition abs_float :: "bool \<Rightarrow> string \<Rightarrow> pyfloat option" where
  "abs_float neg b =
     (let l = map lower_ascii b
      in if l = ''inf'' \<or> l = ''infinity'' then Some (if neg then NegInf else PosInf)
         else if l = ''nan'' then Some NaN
         else
           let m = takeWhile (\<lambda>c. \<not> is_exp_marker c) b;
               rest = dropWhile (\<lambda>c. \<not> is_exp_marker c) b
           in case mantissa_val m of
                None \<Rightarrow> None
              | Some q \<Rightarrow>
                  (case rest of
                     [] \<Rightarrow> Some (to_binary64 neg q)
                   | _ # x \<Rightarrow> map_option (\<lambda>e. to_binary64 neg (q * 10 powi e)) (exponent_val x)))"

text \<open>\<^verbatim>\<open>float(s)\<close>; \<^term>\<open>None\<close> is the \<^verbatim>\<open>ValueError\<close>.\<close>

definition py_float :: "string \<Rightarrow> pyfloat option" where
  "py_float s =
     (case strip_number_space s of
        [] \<Rightarrow> None
      | c # cs \<Rightarrow>
          if c = CHR ''-'' then abs_float True cs
          else if c = CHR ''+'' then abs_float False cs
          else abs_float False (c # cs))"

section \<open>Field normalizers\<close>

text \<open>
  The cells of an extracted table are \<^verbatim>\<open>None\<close> or a string, so the normalizers take a
  \<^typ>\<open>string option\<close>. Each body is a \<^verbatim>\<open>try\<close> whose bare \<^verbatim>\<open>except\<close> returns the default.
\<close>

definition parse_float :: "string option \<Rightarrow> pyfloat" where
  "parse_float value =
     (case value of
        None \<Rightarrow> Finite 0
      | Some v \<Rightarrow>
          if v = [] then Finite 0
          else
            let v' = replace_newline [] (py_strip v)
            in if sublist ''E-8'' v' \<or> sublist ''e-8'' v' then Finite 0
               else (case py_float v' of None \<Rightarrow> Finite 0 | Some f \<Rightarrow> f))"

definition parse_int :: "string option \<Rightarrow> int" where
  "parse_int value =
     (case value of
        None \<Rightarrow> 0
      | Some v \<Rightarrow>
          if v = [] then 0
          else (case py_int (replace_newline [] (py_strip v)) of None \<Rightarrow> 0 | Some n \<Rightarrow> n))"

section \<open>Regular expressions\<close>

text \<open>
  The patterns of the parser use character classes, sequence, alternation, the greedy
  \<^verbatim>\<open>+\<close> and the lazy \<^verbatim>\<open>*?\<close> on a character class, unnested groups and the anchors.
  \<^verbatim>\<open>re\<close> is a backtracking matcher: \<^term>\<open>run r st\<close> lists the states the matcher can
  reach from \<open>st\<close> through \<open>r\<close>, in the order in which it tries them, and a match is
  the first one.
\<close>

datatype cclass = Digit | Word | Space | NonSpace | AnyChar | Ch char | Range char char
  | OneOf "cclass list"

fun in_class :: "cclass \<Rightarrow> char \<Rightarrow> bool" where
  "in_class Digit c = is_digit c"
| "in_class Word c = is_word c"
| "in_class Space c = is_space c"
| "in_class NonSpace c = (\<not> is_space c)"
| "in_class AnyChar c = (c \<noteq> newline)"
| "in_class (Ch x) c = (c = x)"
| "in_class (Range a b) c = (code_point a \<le> code_point c \<and> code_point c \<le> code_point b)"
| "in_class (OneOf ks) c = list_ex (\<lambda>k. in_class k c) ks"

datatype regex = Atom cclass | Eps | Then regex regex | Alt regex regex | Plus cclass
  | LazyStar cclass | Group regex | Bol | Eol

text \<open>A matcher state: the position, the text from there on, the groups closed so far.\<close>

type_synonym mstate = "nat \<times> string \<times> string list"

fun run :: "regex \<Rightarrow> mstate \<Rightarrow> mstate list" where
  "run (Atom k) (p, s, g) =
     (case s of [] \<Rightarrow> [] | c # cs \<Rightarrow> if in_class k c then [(Suc p, cs, g)] else [])"
| "run Eps st = [st]"
| "run (Then a b) st = concat (map (run b) (run a st))"
| "run (Alt a b) st = run a st @ run b st"
| "run (Plus k) (p, s, g) =
     map (\<lambda>n. (p + n, drop n s, g)) (rev [1 ..< Suc (length (takeWhile (in_class k) s))])"
| "run (LazyStar k) (p, s, g) =
     map (\<lambda>n. (p + n, drop n s, g)) [0 ..< Suc (length (takeWhile (in_class k) s))]"
| "run (Group a) (p, s, g) =
     map (\<lambda>(p', s', g'). (p', s', g' @ [take (p' - p) s])) (run a (p, s, g))"
| "run Bol (p, s, g) = (if p = 0 then [(p, s, g)] else [])"
| "run Eol (p, s, g) = (if s = [] \<or> s = [newline] then [(p, s, g)] else [])"

text \<open>\<^verbatim>\<open>re.match(pattern, s)\<close>: the end of the match and \<^verbatim>\<open>match.groups()\<close>.\<close>

definition re_match :: "regex \<Rightarrow> string \<Rightarrow> (nat \<times> string list) option" where
  "re_match r s = (case run r (0, s, []) of [] \<Rightarrow> None | (p, _, g) # _ \<Rightarrow> Some (p, g))"

definition seq :: "regex list \<Rightarrow> regex" where
  "seq rs = foldr Then rs Eps"

definition lit :: "string \<Rightarrow> regex" where
  "lit s = seq (map (\<lambda>c. Atom (Ch c)) s)"

definition times :: "nat \<Rightarrow> cclass \<Rightarrow> regex" where
  "times n k = seq (replicate n (Atom k))"

section \<open>Dates\<close>

text \<open>
  \<^verbatim>\<open>datetime.strptime(s, '%Y-%m-%d')\<close> turns the format into the regular expression
  \<^verbatim>\<open>(?P<Y>\d\d\d\d)-(?P<m>1[0-2]|0[1-9]|[1-9])-(?P<d>3[0-1]|[1-2]\d|0[1-9]|[1-9]| [1-9])\<close>,
  matches it at the start of the text, refuses text left over after the match, reads
  the three groups with \<^verbatim>\<open>int()\<close> and builds the date, which fails for the year 0 and
  for a day the month does not have.
\<close>

definition year_regex :: regex where
  "year_regex = times 4 Digit"

definition month_regex :: regex where
  "month_regex =
     Alt (seq [Atom (Ch CHR ''1''), Atom (Range CHR ''0'' CHR ''2'')])
    (Alt (seq [Atom (Ch CHR ''0''), Atom (Range CHR ''1'' CHR ''9'')])
         (Atom (Range CHR ''1'' CHR ''9'')))"

definition day_regex :: regex where
  "day_regex =
     Alt (seq [Atom (Ch CHR ''3''), Atom (Range CHR ''0'' CHR ''1'')])
    (Alt (seq [Atom (Range CHR ''1'' CHR ''2''), Atom Digit])
    (Alt (seq [Atom (Ch CHR ''0''), Atom (Range CHR ''1'' CHR ''9'')])
    (Alt (Atom (Range CHR ''1'' CHR ''9''))
         (seq [Atom (Ch CHR '' ''), Atom (Range CHR ''1'' CHR ''9'')]))))"

definition strptime_regex :: regex where
  "strptime_regex =
     seq [Group year_regex, Atom (Ch CHR ''-''), Group month_regex, Atom (Ch CHR ''-''),
          Group day_regex]"

definition is_leap :: "nat \<Rightarrow> bool" where
  "is_leap y = (y mod 4 = 0 \<and> (y mod 100 \<noteq> 0 \<or> y mod 400 = 0))"

definition days_in_month :: "nat \<Rightarrow> nat \<Rightarrow> nat" where
  "days_in_month y m =
     (if m = 2 then (if is_leap y then 29 else 28)
      else if m = 4 \<or> m = 6 \<or> m = 9 \<or> m = 11 then 30 else 31)"

definition valid_date :: "int \<Rightarrow> int \<Rightarrow> int \<Rightarrow> bool" where
  "valid_date y m d =
     (1 \<le> y \<and> y \<le> 9999 \<and> 1 \<le> m \<and> m \<le> 12 \<and> 1 \<le> d \<and> d \<le> int (days_in_month (nat y) (nat m)))"

definition strptime_ymd :: "string \<Rightarrow> (nat \<times> nat \<times> nat) option" where
  "strptime_ymd s =
     (case re_match strptime_regex s of
        Some (e, [gy, gm, gd]) \<Rightarrow>
          if e \<noteq> length s then None
          else (case (py_int gy, py_int gm, py_int gd) of
                  (Some y, Some m, Some d) \<Rightarrow>
                    if valid_date y m d then Some (nat y, nat m, nat d) else None
                | _ \<Rightarrow> None)
      | _ \<Rightarrow> None)"

definition digit_char :: "nat \<Rightarrow> char" where
  "digit_char n = char_of (48 + n mod 10)"

definition pad2 :: "nat \<Rightarrow> string" where
  "pad2 n = [digit_char (n div 10), digit_char n]"

definition pad4 :: "nat \<Rightarrow> string" where
  "pad4 n = [digit_char (n div 1000), digit_char (n div 100), digit_char (n div 10), digit_char n]"

text \<open>\<^verbatim>\<open>dt.isoformat()\<close> of a date at midnight (the year has at most four digits).\<close>

definition isoformat :: "nat \<times> nat \<times> nat \<Rightarrow> string" where
  "isoformat ymd =
     (case ymd of (y, m, d) \<Rightarrow> pad4 y @ ''-'' @ pad2 m @ ''-'' @ pad2 d @ ''T00:00:00'')"

definition parse_date :: "string option \<Rightarrow> string option" where
  "parse_date date_str =
     (case date_str of
        None \<Rightarrow> None
      | Some s \<Rightarrow>
          if s = [] then None
          else map_option isoformat (strptime_ymd (replace_newline ''-'' (py_strip s))))"

definition clean_value :: "string option \<Rightarrow> string option" where
  "clean_value v =
     (case v of
        None \<Rightarrow> None
      | Some s \<Rightarrow>
          let s' = replace_newline '' '' (py_strip s)
          in if s' = [] \<or> s' = ''None'' then None else Some s')"

section \<open>Tag extractor\<close>

text \<open>The keyword table, in the order in which the dictionary is written and iterated.\<close>

definition sports_keywords :: "(string \<times> string list) list" where
  "sports_keywords =
     [(''NFL'', [''NFL'']),
      (''NBA'', [''NBA'']),
      (''EPL'', [''EPL'', ''EPLGAME'']),
      (''Premier League'', [''PREMIERLEAGUE'']),
      (''MLB'', [''MLB'']),
      (''NHL'', [''NHL'']),
      (''Soccer'', [''SOCCER'']),
      (''Football'', [''FOOTBALL''])]"

definition extract_tags :: "string \<Rightarrow> string \<Rightarrow> string list" where
  "extract_tags description symbol =
     (let text = py_upper (description @ '' '' @ symbol);
          league = (case find (\<lambda>(tag, keywords). list_ex (\<lambda>keyword. sublist keyword text) keywords)
                           sports_keywords of
                      None \<Rightarrow> []
                    | Some (tag, keywords) \<Rightarrow> [tag])
      in league @ (if description \<noteq> [] then [py_strip description] else []))"

section \<open>Transaction records\<close>

text \<open>
  One dictionary per transaction. A field that a table cell fills may be \<^verbatim>\<open>None\<close>,
  which is \<^term>\<open>None\<close> here.
\<close>

record transaction =
  tradeDate :: "string option"
  assetType :: "string option"
  qtyLong :: int
  qtyShort :: int
  subtype :: "string option"
  symbol :: "string option"
  description :: "string option"
  exchange :: string
  expDate :: "string option"
  tradePrice :: pyfloat
  tradeType :: "string option"
  commission :: pyfloat
  exchangeFees :: pyfloat
  nfaFees :: pyfloat
  totalFees :: pyfloat
  currency :: "string option"
  sourceFile :: string
  tags :: "string list"

text \<open>\<^verbatim>\<open>not x\<close> for an optional string, and \<^verbatim>\<open>x or ''\<close>.\<close>

definition falsy :: "string option \<Rightarrow> bool" where
  "falsy x = (x = None \<or> x = Some [])"

definition or_empty :: "string option \<Rightarrow> string" where
  "or_empty x = (case x of None \<Rightarrow> [] | Some s \<Rightarrow> s)"

section \<open>Table parsers\<close>

text \<open>
  A row is a list of cells. Every index below is smaller than the length that the
  branch has established, and the normalizers raise nothing, so the \<^verbatim>\<open>except\<close> of the
  row never runs. The result of a row is the record appended, or \<^term>\<open>None\<close> when the
  loop goes on to the next row without one.
\<close>

definition monthly_row :: "string option list \<Rightarrow> string \<Rightarrow> transaction option" where
  "monthly_row row filename =
     (if length row < 8 then None
      else
        let cleaned_row = map clean_value row;
            (trade_date, asset_type, qty_long, qty_short, subtype', symbol',
             exp_date, trade_price, currency', trade_type, description') =
              (if 13 \<le> length row then
                 (parse_date (cleaned_row ! 0), cleaned_row ! 1,
                  parse_int (cleaned_row ! 2), parse_int (cleaned_row ! 3),
                  cleaned_row ! 4, cleaned_row ! 5,
                  parse_date (cleaned_row ! 8), parse_float (cleaned_row ! 9),
                  cleaned_row ! 10, cleaned_row ! 11,
                  (if 12 < length row then cleaned_row ! 12 else Some []))
               else
                 (parse_date (cleaned_row ! 0), cleaned_row ! 1,
                  parse_int (cleaned_row ! 2), parse_int (cleaned_row ! 3),
                  cleaned_row ! 4, (if 7 < length row then cleaned_row ! 7 else Some []),
                  None, parse_float (cleaned_row ! 5),
                  Some ''USD'', Some ''Trade'',
                  (if 8 < length row then cleaned_row ! 8 else Some [])))
        in if falsy trade_date \<or> falsy symbol' then None
           else Some
             \<lparr>tradeDate = trade_date, assetType = asset_type, qtyLong = qty_long,
              qtyShort = qty_short, subtype = subtype', symbol = symbol',
              description = description', exchange = ''Kalshi'', expDate = exp_date,
              tradePrice = trade_price, tradeType = trade_type, commission = Finite 0,
              exchangeFees = Finite 0, nfaFees = Finite 0, totalFees = Finite 0,
              currency = currency', sourceFile = filename,
              tags = extract_tags (or_empty description') (or_empty symbol')\<rparr>)"

text \<open>The loop over the rows, with the list \<^verbatim>\<open>transactions\<close> as its state.\<close>

fun rows_loop ::
  "(string option list \<Rightarrow> string \<Rightarrow> transaction option) \<Rightarrow> transaction list \<Rightarrow>
   string option list list \<Rightarrow> string \<Rightarrow> transaction list" where
  "rows_loop f transactions [] filename = transactions"
| "rows_loop f transactions (row # rows) filename =
     (case f row filename of
        None \<Rightarrow> rows_loop f transactions rows filename
      | Some t \<Rightarrow> rows_loop f (transactions @ [t]) rows filename)"

definition parse_monthly_trade_confirmations ::
  "string option list list \<Rightarrow> string \<Rightarrow> transaction list" where
  "parse_monthly_trade_confirmations table filename =
     (if table = [] \<or> length table < 2 then []
      else rows_loop monthly_row [] (tl table) filename)"

definition summary_row :: "string option list \<Rightarrow> string \<Rightarrow> transaction option" where
  "summary_row row filename =
     (if length row < 8 then None
      else
        let cleaned_row = map clean_value row;
            (trade_date, asset_type, qty_long, qty_short, subtype', avg_long, symbol',
             description', exp_date, commission', exchange_fees, nfa_fees, total_fees,
             currency', trade_type) =
              (if 17 \<le> length row then
                 (parse_date (cleaned_row ! 0), cleaned_row ! 1,
                  parse_int (cleaned_row ! 2), parse_int (cleaned_row ! 3),
                  cleaned_row ! 4, parse_float (cleaned_row ! 5),
                  cleaned_row ! 7, cleaned_row ! 8,
                  (if 11 < length row then parse_date (cleaned_row ! 11) else None),
                  (if 12 < length row then parse_float (cleaned_row ! 12) else Finite 0),
                  (if 13 < length row then parse_float (cleaned_row ! 13) else Finite 0),
                  (if 14 < length row then parse_float (cleaned_row ! 14) else Finite 0),
                  (if 15 < length row then parse_float (cleaned_row ! 15) else Finite 0),
                  (if 16 < length row then cleaned_row ! 16 else Some ''USD''),
                  Some ''Trade'')
               else if 10 \<le> length row then
                 (parse_date (cleaned_row ! 0), cleaned_row ! 1,
                  parse_int (cleaned_row ! 2), parse_int (cleaned_row ! 3),
                  cleaned_row ! 4, parse_float (cleaned_row ! 5),
                  (if 7 < length row then cleaned_row ! 7 else Some []),
                  (if 8 < length row then cleaned_row ! 8 else Some []),
                  None, Finite 0, Finite 0, Finite 0, Finite 0, Some ''USD'', Some ''Trade'')
               else
                 (parse_date (cleaned_row ! 0), cleaned_row ! 1,
                  parse_int (cleaned_row ! 2), parse_int (cleaned_row ! 3),
                  cleaned_row ! 4, parse_float (cleaned_row ! 5),
                  (if 6 < length row then cleaned_row ! 6 else Some []),
                  (if 7 < length row then cleaned_row ! 7 else Some []),
                  None, Finite 0, Finite 0, Finite 0, Finite 0, Some ''USD'', Some ''Trade''))
        in if falsy trade_date \<or> falsy symbol' then None
           else Some
             \<lparr>tradeDate = trade_date, assetType = asset_type, qtyLong = qty_long,
              qtyShort = qty_short, subtype = subtype', symbol = symbol',
              description = description', exchange = ''Kalshi'', expDate = exp_date,
              tradePrice = avg_long, tradeType = trade_type, commission = commission',
              exchangeFees = exchange_fees, nfaFees = nfa_fees, totalFees = total_fees,
              currency = currency', sourceFile = filename,
              tags = extract_tags (or_empty description') (or_empty symbol')\<rparr>)"

definition parse_trade_confirmation_summary ::
  "string option list list \<Rightarrow> string \<Rightarrow> transaction list" where
  "parse_trade_confirmation_summary table filename =
     (if table = [] \<or> length table < 2 then []
      else rows_loop summary_row [] (tl table) filename)"

section \<open>Line parsers\<close>

definition date_group :: regex where
  "date_group =
     Group (seq [times 4 Digit, Atom (Ch CHR ''-''), times 2 Digit, Atom (Ch CHR ''-''),
                 times 2 Digit])"

definition yes_no :: regex where
  "yes_no = Group (Alt (lit ''YES'') (lit ''NO''))"

text \<open>
  \<^verbatim>\<open>^(\d{4}-\d{2}-\d{2})\s+(\w+)\s+(\d+)\s+(\d+)\s+(YES|NO)\s+(\S+)\s+(\w+)\s+\<close>
  \<^verbatim>\<open>(\d{4}-\d{2}-\d{2})\s+([\d.E-]+)\s+(\w+)\s+(.*?)\s+(.+)$\<close>
\<close>

definition text_pattern :: regex where
  "text_pattern =
     seq [Bol, date_group, Plus Space, Group (Plus Word), Plus Space, Group (Plus Digit),
          Plus Space, Group (Plus Digit), Plus Space, yes_no, Plus Space,
          Group (Plus NonSpace), Plus Space, Group (Plus Word), Plus Space, date_group,
          Plus Space,
          Group (Plus (OneOf [Digit, Ch CHR ''.'', Ch CHR ''E'', Ch CHR ''-''])),
          Plus Space, Group (Plus Word), Plus Space, Group (LazyStar AnyChar), Plus Space,
          Group (Plus AnyChar), Eol]"

text \<open>
  \<^verbatim>\<open>^(\d{4}-\d{2}-\d{2})\s+(\w+)\s+(\d+)\s+(\d+)\s+(YES|NO)\s+(\S+)\s+(\w+)\s+\<close>
  \<^verbatim>\<open>(\d{4}-\d{2}-\d{2})\s+([-\d.E-]+)\s+(\w+)\s+(.+)$\<close>
\<close>

definition summary_pattern :: regex where
  "summary_pattern =
     seq [Bol, date_group, Plus Space, Group (Plus Word), Plus Space, Group (Plus Digit),
          Plus Space, Group (Plus Digit), Plus Space, yes_no, Plus Space,
          Group (Plus NonSpace), Plus Space, Group (Plus Word), Plus Space, date_group,
          Plus Space,
          Group (Plus (OneOf [Ch CHR ''-'', Digit, Ch CHR ''.'', Ch CHR ''E'', Ch CHR ''-''])),
          Plus Space, Group (Plus Word), Plus Space, Group (Plus AnyChar), Eol]"

text \<open>
  The body of the \<^verbatim>\<open>try\<close> of \<^verbatim>\<open>parse_text_transactions\<close> on the groups of a match.
  The pattern has twelve groups; on fewer, \<^verbatim>\<open>groups[i]\<close> would raise the \<^verbatim>\<open>IndexError\<close>
  that the \<^verbatim>\<open>except\<close> turns into the next line.
\<close>

definition text_record :: "string list \<Rightarrow> string \<Rightarrow> transaction option" where
  "text_record groups filename =
     (if length groups < 12 then None
      else
        let trade_date = parse_date (Some (groups ! 0));
            asset_type = groups ! 1;
            qty_long = parse_int (Some (groups ! 2));
            qty_short = parse_int (Some (groups ! 3));
            subtype' = groups ! 4;
            symbol' = groups ! 5;
            exchange' = groups ! 6;
            exp_date = parse_date (Some (groups ! 7));
            trade_price = parse_float (Some (groups ! 8));
            currency' = groups ! 9;
            trade_type = py_strip (groups ! 10);
            description' = py_strip (groups ! 11)
        in if falsy trade_date \<or> symbol' = [] then None
           else Some
             \<lparr>tradeDate = trade_date, assetType = Some asset_type, qtyLong = qty_long,
              qtyShort = qty_short, subtype = Some subtype', symbol = Some symbol',
              description = Some description', exchange = exchange', expDate = exp_date,
              tradePrice = trade_price, tradeType = Some trade_type, commission = Finite 0,
              exchangeFees = Finite 0, nfaFees = Finite 0, totalFees = Finite 0,
              currency = Some currency', sourceFile = filename,
              tags = extract_tags description' symbol'\<rparr>)"

definition text_line :: "string \<Rightarrow> string \<Rightarrow> transaction option" where
  "text_line l filename =
     (let line = py_strip l
      in if line = [] then None
         else (case re_match text_pattern line of
                 None \<Rightarrow> None
               | Some (e, groups) \<Rightarrow> text_record groups filename))"

fun text_loop :: "transaction list \<Rightarrow> string list \<Rightarrow> string \<Rightarrow> transaction list" where
  "text_loop transactions [] filename = transactions"
| "text_loop transactions (l # ls) filename =
     (case text_line l filename of
        None \<Rightarrow> text_loop transactions ls filename
      | Some t \<Rightarrow> text_loop (transactions @ [t]) ls filename)"

definition parse_text_transactions :: "string \<Rightarrow> string \<Rightarrow> transaction list" where
  "parse_text_transactions text filename = text_loop [] (split_lines text) filename"

definition section_headers :: "string list" where
  "section_headers = [''Journal Entries'', ''Open Positions'', ''Account Summary'']"

definition has_section_header :: "string \<Rightarrow> bool" where
  "has_section_header line = list_ex (\<lambda>section. sublist section line) section_headers"

text \<open>The body of the \<^verbatim>\<open>try\<close> of the summary parser; its pattern has eleven groups.\<close>

definition summary_record :: "string list \<Rightarrow> string \<Rightarrow> transaction option" where
  "summary_record groups filename =
     (if length groups < 11 then None
      else
        let trade_date = parse_date (Some (groups ! 0));
            asset_type = groups ! 1;
            qty_long = parse_int (Some (groups ! 2));
            qty_short = parse_int (Some (groups ! 3));
            subtype' = groups ! 4;
            symbol' = groups ! 5;
            exchange' = groups ! 6;
            exp_date = parse_date (Some (groups ! 7));
            gross_pnl = parse_float (Some (groups ! 8));
            currency' = groups ! 9;
            description' = py_strip (groups ! 10)
        in if falsy trade_date \<or> symbol' = [] then None
           else Some
             \<lparr>tradeDate = trade_date, assetType = Some asset_type, qtyLong = qty_long,
              qtyShort = qty_short, subtype = Some subtype', symbol = Some symbol',
              description = Some description', exchange = exchange', expDate = exp_date,
              tradePrice = gross_pnl, tradeType = Some ''Closed Position'',
              commission = Finite 0, exchangeFees = Finite 0, nfaFees = Finite 0,
              totalFees = Finite 0, currency = Some currency', sourceFile = filename,
              tags = extract_tags description' symbol'\<rparr>)"

text \<open>
  The loop of \<^verbatim>\<open>parse_purchase_and_sale_summary_text\<close>; a line that names a following
  section ends it (\<^verbatim>\<open>break\<close>).
\<close>

fun summary_loop :: "transaction list \<Rightarrow> string list \<Rightarrow> string \<Rightarrow> transaction list" where
  "summary_loop transactions [] filename = transactions"
| "summary_loop transactions (l # ls) filename =
     (let line = py_strip l
      in if line = [] then summary_loop transactions ls filename
         else if has_section_header line then transactions
         else (case re_match summary_pattern line of
                 None \<Rightarrow> summary_loop transactions ls filename
               | Some (e, groups) \<Rightarrow>
                   (case summary_record groups filename of
                      None \<Rightarrow> summary_loop transactions ls filename
                    | Some t \<Rightarrow> summary_loop (transactions @ [t]) ls filename)))"

definition parse_purchase_and_sale_summary_text :: "string \<Rightarrow> string \<Rightarrow> transaction list" where
  "parse_purchase_and_sale_summary_text text filename =
     summary_loop [] (split_lines text) filename"

section \<open>Engine driver\<close>

text \<open>
  What opening the document and extracting the text of its pages gives: the exception
  raised on the way (with \<^verbatim>\<open>str(e)\<close> as its message), or the text of each page, which
  may be \<^verbatim>\<open>None\<close>.
\<close>

datatype py_exception = PyException (message: string)

type_synonym extraction = "py_exception + string option list"

record parse_result =
  success :: bool
  error :: "string option"
  filename :: string
  transactionCount :: nat
  transactions :: "transaction list"

text \<open>\<^verbatim>\<open>os.path.basename\<close> of a POSIX path.\<close>

definition basename :: "string \<Rightarrow> string" where
  "basename path = rev (takeWhile (\<lambda>c. c \<noteq> CHR ''/'') (rev path))"

definition all_text_of :: "string option list \<Rightarrow> string" where
  "all_text_of pages =
     concat (map (\<lambda>text. case text of
                            None \<Rightarrow> []
                          | Some t \<Rightarrow> if t = [] then [] else t @ [newline]) pages)"

definition header_phrase :: string where
  "header_phrase = ''Purchase and Sale Summary''"

text \<open>The first loop: the index after the first line with the header, from index \<open>i\<close> on.\<close>

fun find_start :: "nat \<Rightarrow> string list \<Rightarrow> nat option" where
  "find_start i [] = None"
| "find_start i (l # ls) =
     (if sublist header_phrase l then Some (i + 1) else find_start (Suc i) ls)"

text \<open>
  The second loop, over \<^verbatim>\<open>range(start_idx, len(lines))\<close>: the index of the first line
  with a following section's header, or the number of lines.
\<close>

fun find_end :: "nat \<Rightarrow> string list \<Rightarrow> nat" where
  "find_end i [] = i"
| "find_end i (l # ls) = (if has_section_header l then i else find_end (Suc i) ls)"

definition section_lines_of :: "nat \<Rightarrow> string list \<Rightarrow> string list" where
  "section_lines_of start_idx lines =
     (let end_idx = find_end start_idx (drop start_idx lines)
      in take (end_idx - start_idx) (drop start_idx lines))"

text \<open>
  The body of the \<^verbatim>\<open>try\<close>. With no start index, \<^verbatim>\<open>range(None, len(lines))\<close> raises a
  \<^verbatim>\<open>TypeError\<close>.
\<close>

definition parse_pdf_try :: "extraction \<Rightarrow> string \<Rightarrow> py_exception + parse_result" where
  "parse_pdf_try extracted fname =
     (case extracted of
        Inl e \<Rightarrow> Inl e
      | Inr pages \<Rightarrow>
          let all_text = all_text_of pages
          in if \<not> sublist header_phrase all_text then
               Inr \<lparr>success = False,
                    error = Some ''Purchase and Sale Summary section not found'',
                    filename = fname, transactionCount = 0, transactions = []\<rparr>
             else
               let lines = split_lines all_text
               in (case find_start 0 lines of
                     None \<Rightarrow>
                       Inl (PyException
                             (CHR 0x27 # ''NoneType'' @
                              CHR 0x27 # '' object cannot be interpreted as an integer''))
                   | Some start_idx \<Rightarrow>
                       let section_text = join_lines (section_lines_of start_idx lines);
                           ts = parse_purchase_and_sale_summary_text section_text fname
                       in Inr \<lparr>success = True, error = None, filename = fname,
                               transactionCount = length ts, transactions = ts\<rparr>))"

definition parse_pdf :: "extraction \<Rightarrow> string \<Rightarrow> parse_result" where
  "parse_pdf extracted pdf_path =
     (let fname = basename pdf_path
      in case parse_pdf_try extracted fname of
           Inr result \<Rightarrow> result
         | Inl e \<Rightarrow>
             \<lparr>success = False, error = Some (message e), filename = fname,
              transactionCount = 0, transactions = []\<rparr>)"

section \<open>Notions of the specification\<close>

text \<open>
  The exponent of a float literal in scientific notation: of a text that \<^verbatim>\<open>float()\<close>
  accepts, what is written after its \<^verbatim>\<open>e\<close> or \<^verbatim>\<open>E\<close>, and the number that this denotes.
\<close>

definition exponent_text :: "string \<Rightarrow> string option" where
  "exponent_text s =
     (if py_float s = None then None
      else (case dropWhile (\<lambda>c. \<not> is_exp_marker c) (strip_number_space s) of
              [] \<Rightarrow> None
            | _ # x \<Rightarrow> Some x))"

definition sci_exponent :: "string \<Rightarrow> int option" where
  "sci_exponent s = (case exponent_text s of None \<Rightarrow> None | Some x \<Rightarrow> exponent_val x)"

text \<open>
  The well-formed numeric literals, by the grammar of the language: a group of digits
  is a run of digits that single underscores may separate; a number is a group, with a
  point after it, before it, or between two groups; a float number is a number, or a
  number, an exponent marker and a group with or without a sign; a numeric literal is a
  float number with or without a sign; an integer literal is a group with or without a
  sign. The grammar is stated by the places of the point and of the marker, not by
  the way the conversions read a text.
\<close>

fun digit_group :: "string \<Rightarrow> bool" where
  "digit_group [] = False"
| "digit_group [c] = is_digit c"
| "digit_group (c # d # cs) =
     (is_digit c \<and> (if d = CHR ''_'' then digit_group cs else digit_group (d # cs)))"

definition has_sign :: "string \<Rightarrow> bool" where
  "has_sign t = (case t of [] \<Rightarrow> False | c # cs \<Rightarrow> c = CHR ''+'' \<or> c = CHR ''-'')"

definition signed_digits :: "string \<Rightarrow> bool" where
  "signed_digits x = (digit_group x \<or> has_sign x \<and> digit_group (tl x))"

definition number_text :: "string \<Rightarrow> bool" where
  "number_text m =
     (digit_group m \<or>
      list_ex (\<lambda>k. m ! k = CHR ''.'' \<and>
                 (digit_group (take k m) \<and> (drop (Suc k) m = [] \<or> digit_group (drop (Suc k) m))
                  \<or> k = 0 \<and> digit_group (drop (Suc k) m)))
        [0 ..< length m])"

definition float_number :: "string \<Rightarrow> bool" where
  "float_number b =
     (number_text b \<or>
      list_ex (\<lambda>k. is_exp_marker (b ! k) \<and> number_text (take k b)
                 \<and> signed_digits (drop (Suc k) b))
        [0 ..< length b])"

definition numeric_literal :: "string \<Rightarrow> bool" where
  "numeric_literal t = (float_number t \<or> has_sign t \<and> float_number (tl t))"

definition integer_literal :: "string \<Rightarrow> bool" where
  "integer_literal t = signed_digits t"

text \<open>The words for the infinities and for not-a-number, in any case, with or without a sign.\<close>

definition special_word :: "string \<Rightarrow> bool" where
  "special_word b =
     (let l = map lower_ascii b in l = ''inf'' \<or> l = ''infinity'' \<or> l = ''nan'')"

definition special_literal :: "string \<Rightarrow> bool" where
  "special_literal t = (special_word t \<or> has_sign t \<and> special_word (tl t))"

text \<open>
  The strict pattern \<^verbatim>\<open>YYYY-MM-DD\<close> of the specification: four digits, two digits and
  two digits, with hyphens between them.
\<close>

definition strict_ymd :: "string \<Rightarrow> bool" where
  "strict_ymd t =
     (length t = 10 \<and> list_all is_digit (take 4 t) \<and> t ! 4 = CHR ''-''
      \<and> list_all is_digit (take 2 (drop 5 t)) \<and> t ! 7 = CHR ''-''
      \<and> list_all is_digit (drop 8 t))"

text \<open>
  The fields that the conversion of dates accepts: a year of four digits, a month of
  one or two digits, a day of one or two digits or of a space and a digit.
\<close>

definition year_text :: "string \<Rightarrow> bool" where
  "year_text y = (length y = 4 \<and> list_all is_digit y)"

definition month_text :: "string \<Rightarrow> bool" where
  "month_text m = ((length m = 1 \<or> length m = 2) \<and> list_all is_digit m)"

definition day_text :: "string \<Rightarrow> bool" where
  "day_text d =
     (month_text d \<or> (case d of [s, c] \<Rightarrow> s = CHR '' '' \<and> is_digit c | _ \<Rightarrow> False))"

section \<open>The example of the format\<close>

text \<open>The example line of the module's documentation, and a statement around it.\<close>

definition example_line :: string where
  "example_line =
     ''2025-09-01 SW 20 0 YES KXEPLGAME-25SEP14MCIMUN-MCI Kalshi 2025-09-14 -10.08 USD Manchester City''"

definition example_pages :: "string option list" where
  "example_pages =
     [Some (''Statement'' @ newline # header_phrase @ newline # example_line), None,
      Some (''Open Positions'' @ newline # example_line)]"

text \<open>The example line with a date that no calendar has.\<close>

definition unresolved_date_line :: string where
  "unresolved_date_line =
     ''2025-02-30 SW 20 0 YES KXEPLGAME-25SEP14MCIMUN-MCI Kalshi 2025-09-14 -10.08 USD Manchester City''"

section \<open>Substrings under trimming\<close>

lemma dropWhile_keeps_block:
  assumes "n \<noteq> []" "\<not> P (hd n)"
  shows "\<exists>ps'. dropWhile P (ps @ n @ ss) = ps' @ n @ ss"
proof (cases "\<forall>x\<in>set ps. P x")
  case True
  from assms obtain x n' where n: "n = x # n'" "\<not> P x" by (cases n) auto
  with True have "dropWhile P (ps @ n @ ss) = [] @ n @ ss"
    by (simp add: dropWhile_append)
  then show ?thesis by blast
next
  case False
  then have "dropWhile P (ps @ n @ ss) = dropWhile P ps @ n @ ss"
    by (auto simp: dropWhile_append)
  then show ?thesis by blast
qed

lemma sublist_py_strip:
  assumes "sublist n s" "n \<noteq> []" "\<not> is_space (hd n)" "\<not> is_space (last n)"
  shows "sublist n (py_strip s)"
proof -
  from assms(1) obtain ps ss where s: "s = ps @ n @ ss" by (auto simp: sublist_def)
  obtain ps' where a: "dropWhile is_space (ps @ n @ ss) = ps' @ n @ ss"
    using dropWhile_keeps_block [of n is_space ps ss] assms(2,3) by blast
  have "rev n \<noteq> []" "\<not> is_space (hd (rev n))"
    using assms(2,4) by (simp_all add: hd_rev)
  then obtain ss' where b: "dropWhile is_space (rev ss @ rev n @ rev ps') = ss' @ rev n @ rev ps'"
    using dropWhile_keeps_block [of "rev n" is_space "rev ss" "rev ps'"] by blast
  have "py_strip s = ps' @ n @ rev ss'"
    by (simp add: py_strip_def s a b)
  then show ?thesis by (simp add: sublist_def) blast
qed

lemma replace_newline_id: "newline \<notin> set n \<Longrightarrow> replace_newline r n = n"
  by (induction n) (auto simp: replace_newline_def)

lemma sublist_replace_newline:
  assumes "sublist n s" "newline \<notin> set n"
  shows "sublist n (replace_newline r s)"
proof -
  from assms(1) obtain ps ss where s: "s = ps @ n @ ss" by (auto simp: sublist_def)
  have "replace_newline r s = replace_newline r ps @ n @ replace_newline r ss"
    using replace_newline_id [OF assms(2), of r] by (simp add: s replace_newline_def)
  then show ?thesis by (simp add: sublist_def) blast
qed

lemma marker_not_space:
  "\<not> is_space CHR ''E''" "\<not> is_space CHR ''e''" "\<not> is_space CHR ''8''"
  by (simp_all add: is_space_def code_point_def)

lemma parse_float_marker:
  assumes "sublist ''E-8'' s \<or> sublist ''e-8'' s"
  shows "parse_float (Some s) = Finite 0"
proof -
  let ?v = "replace_newline [] (py_strip s)"
  have "sublist ''E-8'' ?v \<or> sublist ''e-8'' ?v"
    using assms
    by (auto intro!: sublist_replace_newline sublist_py_strip simp: marker_not_space newline_def)
  then show ?thesis by (auto simp: parse_float_def Let_def)
qed

section \<open>Rounding to binary64 keeps a representable magnitude away from zero\<close>

lemma binade_le:
  assumes "0 < a"
  shows "2 powi (binade a) \<le> a"
proof -
  obtain p q where pq: "quotient_of a = (p, q)" by fastforce
  have q: "0 < q" using quotient_of_denom_pos [OF pq] .
  have a: "a = of_int p / of_int q" using quotient_of_div [OF pq] .
  have p: "0 < p" using assms q a by (simp add: zero_less_divide_iff)
  define lp where "lp = floorlog 2 (nat p)"
  define lq where "lq = floorlog 2 (nat q)"
  have bp: "2 ^ (lp - 1) \<le> nat p" and bq: "nat q < 2 ^ lq"
    using floorlog_bounds [of "nat p" 2] floorlog_bounds [of "nat q" 2] p q
    by (simp_all add: lp_def lq_def)
  have lp1: "1 \<le> lp" using p by (simp add: lp_def floorlog_def)
  have "(of_nat (2 ^ (lp - 1)) :: rat) \<le> of_nat (nat p)"
    using bp by (simp only: of_nat_le_iff)
  then have bp': "(2::rat) ^ (lp - 1) \<le> of_int p"
    using p by simp
  have "(of_nat (nat q) :: rat) \<le> of_nat (2 ^ lq)"
    using bq by (simp only: of_nat_le_iff)
  then have bq': "of_int q \<le> (2::rat) ^ lq"
    using q by simp
  have "int lp - int lq - 1 = int (lp - 1) - int lq"
    using lp1 by simp
  then have "(2::rat) powi (int lp - int lq - 1) = 2 powi (int (lp - 1) - int lq)"
    by (simp only:)
  also have "\<dots> = 2 powi int (lp - 1) / 2 powi int lq"
    by (rule power_int_diff) simp
  also have "\<dots> = 2 ^ (lp - 1) / 2 ^ lq"
    by (simp only: power_int_of_nat)
  finally have "(2::rat) powi (int lp - int lq - 1) = 2 ^ (lp - 1) / 2 ^ lq" .
  also have "\<dots> \<le> of_int p / of_int q"
    using bp' bq' q p by (intro frac_le) simp_all
  finally have low: "(2::rat) powi (int lp - int lq - 1) \<le> a" by (simp add: a)
  show ?thesis
    using low by (simp add: binade_def pq Let_def lp_def lq_def)
qed

lemma round_half_even_pos:
  assumes "1 \<le> x"
  shows "1 \<le> round_half_even x"
proof -
  have "1 \<le> \<lfloor>x\<rfloor>" using assms by (simp add: le_floor_iff)
  then show ?thesis by (simp add: round_half_even_def Let_def)
qed

lemma to_binary64_nonzero:
  assumes "2 powi (- 1074) \<le> a"
  shows "to_binary64 neg a \<noteq> Finite 0" and "to_binary64 neg a \<noteq> NegZero"
proof -
  have a0: "0 < a" using assms by (rule less_le_trans [rotated]) simp
  define e where "e = max (binade a) (- 1022)"
  define u where "u = (2::rat) powi (e - 52)"
  have u0: "0 < u" by (simp add: u_def)
  have "u \<le> a"
  proof (cases "binade a \<le> - 1022")
    case True
    then have "u = 2 powi (- 1074)" by (simp add: u_def e_def max_def)
    then show ?thesis using assms by simp
  next
    case False
    then have "e = binade a" by (simp add: e_def)
    then have "u \<le> 2 powi (binade a)"
      unfolding u_def by (intro power_int_increasing) simp_all
    then show ?thesis using binade_le [OF a0] by simp
  qed
  then have "1 \<le> a / u" using u0 by (simp add: le_divide_eq)
  then have r: "1 \<le> round_half_even (a / u)" by (rule round_half_even_pos)
  then have v: "0 < of_int (round_half_even (a / u)) * u" using u0 by simp
  show "to_binary64 neg a \<noteq> Finite 0" "to_binary64 neg a \<noteq> NegZero"
    using a0 v unfolding to_binary64_def Let_def e_def [symmetric] u_def [symmetric]
    by (auto split: if_splits)
qed

section \<open>Evaluation of literals\<close>

lemmas char_class_defs =
  is_space_def is_number_space_def is_digit_def is_word_def code_point_def newline_def
  is_exp_marker_def lower_ascii_def

lemmas float_defs =
  py_float_def strip_number_space_def abs_float_def mantissa_val_def exponent_val_def
  digits_val_def digit_val_def

lemma float_15E80: "py_float ''1.5E-80'' = Some (to_binary64 False (15 / 10 * 10 powi (- 80)))"
  by (simp add: float_defs char_class_defs)

lemma float_15E80_nonzero: "to_binary64 False (15 / 10 * 10 powi (- 80)) \<noteq> Finite 0"
  by (rule to_binary64_nonzero) (simp add: power_int_minus field_simps)

lemma float_15E8: "py_float ''1.5E-8'' = Some (to_binary64 False (15 / 10 * 10 powi (- 8)))"
  by (simp add: float_defs char_class_defs)

lemma float_15E8_nonzero: "to_binary64 False (15 / 10 * 10 powi (- 8)) \<noteq> Finite 0"
  by (rule to_binary64_nonzero) (simp add: power_int_minus field_simps)

lemma sublist_strip_number_space: "sublist (strip_number_space s) s"
proof -
  have "sublist (dropWhile is_number_space (rev (dropWhile is_number_space s)))
          (rev (dropWhile is_number_space s))"
    by (rule sublist_dropWhile)
  then have "sublist (strip_number_space s) (dropWhile is_number_space s)"
    by (simp add: strip_number_space_def sublist_rev_left)
  then show ?thesis
    using sublist_dropWhile sublist_order.order_trans by blast
qed

section \<open>The conversions accept literals of the grammar only\<close>

lemma digitpart_group: "digitpart ds = Some r \<Longrightarrow> digit_group ds"
  by (induction ds arbitrary: r rule: digitpart.induct) (auto split: if_splits)

lemma int_digits_group: "int_digits ds = Some n \<Longrightarrow> digit_group ds"
  by (auto simp: int_digits_def digitpart_group split: option.splits if_splits)

lemma exponent_signed: "exponent_val x = Some e \<Longrightarrow> signed_digits x"
  by (cases x) (auto simp: exponent_val_def signed_digits_def has_sign_def digitpart_group
      split: if_splits)

lemma split_at:
  "m = ip @ c # fp \<Longrightarrow>
   length ip < length m \<and> m ! length ip = c \<and> take (length ip) m = ip
   \<and> drop (Suc (length ip)) m = fp"
  by simp

lemma dropWhile_split:
  assumes "dropWhile P m = p # fp"
  shows "\<not> P p" and "m = takeWhile P m @ p # fp"
proof -
  show "\<not> P p" using hd_dropWhile [of P m] assms by simp
  show "m = takeWhile P m @ p # fp"
    using takeWhile_dropWhile_id [of P m] assms by simp
qed

lemma mantissa_number:
  assumes "mantissa_val m = Some q"
  shows "number_text m"
proof (cases "dropWhile (\<lambda>c. c \<noteq> CHR ''.'') m")
  case Nil
  have tw: "takeWhile (\<lambda>c. c \<noteq> CHR ''.'') m = m"
    using takeWhile_dropWhile_id [of "\<lambda>c. c \<noteq> CHR ''.''" m] unfolding Nil by simp
  have "mantissa_val m = map_option (\<lambda>ds. of_nat (digits_val ds)) (digitpart m)"
    unfolding mantissa_val_def Let_def Nil tw by simp
  with assms obtain ds where "digitpart m = Some ds"
    by (cases "digitpart m") simp_all
  then have "digit_group m" by (rule digitpart_group)
  then show ?thesis by (simp add: number_text_def)
next
  case (Cons p fp)
  define ip where "ip = takeWhile (\<lambda>c. c \<noteq> CHR ''.'') m"
  from dropWhile_split [OF Cons] have p: "p = CHR ''.''" and m: "m = ip @ p # fp"
    by (simp_all add: ip_def)
  from split_at [OF m] have k: "length ip < length m" "m ! length ip = CHR ''.''"
    "take (length ip) m = ip" "drop (Suc (length ip)) m = fp"
    using p by simp_all
  have e: "mantissa_val m =
            (if fp = [] then map_option (\<lambda>ds. of_nat (digits_val ds)) (digitpart ip)
             else (case digitpart fp of
                     None \<Rightarrow> None
                   | Some fs \<Rightarrow>
                       if ip = [] then Some (of_nat (digits_val fs) / 10 ^ length fs)
                       else map_option
                              (\<lambda>ds. of_nat (digits_val (ds @ fs)) / 10 ^ length fs)
                              (digitpart ip)))"
    unfolding mantissa_val_def Let_def Cons ip_def [symmetric] by simp
  have d: "digit_group ip \<and> (fp = [] \<or> digit_group fp) \<or> ip = [] \<and> digit_group fp"
  proof (cases "fp = []")
    case True
    with e assms obtain ds where "digitpart ip = Some ds"
      by (cases "digitpart ip") simp_all
    then have "digit_group ip" by (rule digitpart_group)
    with True show ?thesis by simp
  next
    case False
    with e assms obtain fs where fs: "digitpart fp = Some fs"
      by (cases "digitpart fp") simp_all
    then have g: "digit_group fp" by (rule digitpart_group)
    show ?thesis
    proof (cases "ip = []")
      case True
      with g show ?thesis by simp
    next
      case ne: False
      with e assms False fs obtain ds where "digitpart ip = Some ds"
        by (cases "digitpart ip") simp_all
      then have "digit_group ip" by (rule digitpart_group)
      with g show ?thesis by simp
    qed
  qed
  have "m ! length ip = CHR ''.'' \<and>
      (digit_group (take (length ip) m)
         \<and> (drop (Suc (length ip)) m = [] \<or> digit_group (drop (Suc (length ip)) m))
       \<or> length ip = 0 \<and> digit_group (drop (Suc (length ip)) m))"
    using d unfolding k by simp
  moreover have "length ip \<in> set [0 ..< length m]"
    using k(1) by simp
  ultimately show ?thesis
    unfolding number_text_def list_ex_iff by blast
qed

lemma abs_float_literal:
  assumes "abs_float neg b = Some v"
  shows "special_word b \<or> float_number b"
proof (cases "special_word b")
  case True
  then show ?thesis by simp
next
  case False
  define m where "m = takeWhile (\<lambda>c. \<not> is_exp_marker c) b"
  define rest where "rest = dropWhile (\<lambda>c. \<not> is_exp_marker c) b"
  from False have l: "map lower_ascii b \<noteq> ''inf''" "map lower_ascii b \<noteq> ''infinity''"
    "map lower_ascii b \<noteq> ''nan''"
    by (simp_all add: special_word_def Let_def)
  have a: "abs_float neg b =
      (case mantissa_val m of
                None \<Rightarrow> None
              | Some q \<Rightarrow>
                  (case rest of
                     [] \<Rightarrow> Some (to_binary64 neg q)
                   | _ # x \<Rightarrow> map_option (\<lambda>e. to_binary64 neg (q * 10 powi e)) (exponent_val x)))"
    unfolding abs_float_def Let_def m_def rest_def using l by simp
  from assms a obtain q where q: "mantissa_val m = Some q"
    by (cases "mantissa_val m") simp_all
  then have nm: "number_text m" by (rule mantissa_number)
  show ?thesis
  proof (cases rest)
    case Nil
    then have "m = b"
      using takeWhile_dropWhile_id [of "\<lambda>c. \<not> is_exp_marker c" b]
      by (simp add: m_def rest_def)
    with nm show ?thesis by (simp add: float_number_def)
  next
    case (Cons p x)
    then have c: "dropWhile (\<lambda>c. \<not> is_exp_marker c) b = p # x" by (simp add: rest_def)
    from dropWhile_split [OF c] have p: "is_exp_marker p" and b: "b = m @ p # x"
      by (simp_all add: m_def)
    from split_at [OF b] have k: "length m < length b" "b ! length m = p"
      "take (length m) b = m" "drop (Suc (length m)) b = x"
      by simp_all
    from assms a q Cons obtain e where "exponent_val x = Some e"
      by (cases "exponent_val x") simp_all
    then have "signed_digits x" by (rule exponent_signed)
    with p nm have "is_exp_marker (b ! length m) \<and> number_text (take (length m) b)
        \<and> signed_digits (drop (Suc (length m)) b)"
      unfolding k by simp
    moreover have "length m \<in> set [0 ..< length b]"
      using k(1) by simp
    ultimately show ?thesis
      unfolding float_number_def list_ex_iff by blast
  qed
qed

lemma py_float_literal:
  assumes "py_float t = Some v"
  shows "numeric_literal (strip_number_space t) \<or> special_literal (strip_number_space t)"
proof (cases "strip_number_space t")
  case Nil
  with assms show ?thesis by (simp add: py_float_def)
next
  case (Cons c cs)
  show ?thesis
  proof (cases "c = CHR ''-'' \<or> c = CHR ''+''")
    case True
    with assms Cons obtain neg where "abs_float neg cs = Some v"
      by (auto simp: py_float_def split: if_splits)
    from abs_float_literal [OF this] have "special_word cs \<or> float_number cs" .
    with True show ?thesis
      unfolding Cons numeric_literal_def special_literal_def has_sign_def by auto
  next
    case False
    with assms Cons have "abs_float False (c # cs) = Some v"
      by (simp add: py_float_def)
    from abs_float_literal [OF this] show ?thesis
      unfolding Cons numeric_literal_def special_literal_def by blast
  qed
qed

lemma py_int_literal:
  assumes "py_int t = Some n"
  shows "integer_literal (strip_number_space t)"
proof (cases "strip_number_space t")
  case Nil
  with assms show ?thesis by (simp add: py_int_def)
next
  case (Cons c cs)
  show ?thesis
  proof (cases "c = CHR ''-'' \<or> c = CHR ''+''")
    case True
    with assms Cons obtain k where "int_digits cs = Some k"
      by (auto simp: py_int_def split: if_splits)
    then have "digit_group cs" by (rule int_digits_group)
    with True show ?thesis
      unfolding Cons integer_literal_def signed_digits_def has_sign_def by auto
  next
    case False
    with assms Cons obtain k where "int_digits (c # cs) = Some k"
      by (auto simp: py_int_def)
    then have "digit_group (c # cs)" by (rule int_digits_group)
    then show ?thesis
      unfolding Cons integer_literal_def signed_digits_def by blast
  qed
qed

section \<open>A trimmed text has no white space at its ends\<close>

lemma last_dropWhile: "dropWhile P xs \<noteq> [] \<Longrightarrow> last (dropWhile P xs) = last xs"
  by (induction xs) (auto split: if_splits)

lemma dropWhile_fixed: "xs \<noteq> [] \<Longrightarrow> \<not> P (hd xs) \<Longrightarrow> dropWhile P xs = xs"
  by (cases xs) simp_all

lemma strip_ends:
  assumes "rev (dropWhile P (rev (dropWhile P s))) \<noteq> []"
  shows "\<not> P (hd (rev (dropWhile P (rev (dropWhile P s)))))"
    and "\<not> P (last (rev (dropWhile P (rev (dropWhile P s)))))"
proof -
  define a where "a = dropWhile P s"
  define b where "b = dropWhile P (rev a)"
  from assms have b: "b \<noteq> []" by (simp add: a_def b_def)
  have a: "a \<noteq> []"
  proof
    assume "a = []"
    then have "b = []" by (simp add: b_def)
    with b show False by simp
  qed
  have "last b = last (rev a)" using b unfolding b_def by (rule last_dropWhile)
  also have "\<dots> = hd a" using a by (simp add: last_rev)
  finally have "hd (rev b) = hd a" using b by (simp add: hd_rev)
  moreover have "\<not> P (hd a)" using a unfolding a_def by (rule hd_dropWhile)
  ultimately have "\<not> P (hd (rev b))" by simp
  moreover have "\<not> P (hd b)" using b unfolding b_def by (rule hd_dropWhile)
  then have "\<not> P (last (rev b))" using b by (simp add: last_rev)
  ultimately show "\<not> P (hd (rev (dropWhile P (rev (dropWhile P s)))))"
    and "\<not> P (last (rev (dropWhile P (rev (dropWhile P s)))))"
    by (simp_all add: a_def b_def)
qed

lemma strip_fixed:
  assumes "t \<noteq> []" "\<not> P (hd t)" "\<not> P (last t)"
  shows "rev (dropWhile P (rev (dropWhile P t))) = t"
proof -
  have "dropWhile P t = t" using assms(1,2) by (rule dropWhile_fixed)
  moreover have "dropWhile P (rev t) = rev t"
    using assms(1,3) by (intro dropWhile_fixed) (simp_all add: hd_rev)
  ultimately show ?thesis by simp
qed

lemma number_space_is_space: "is_number_space c \<Longrightarrow> is_space c"
  by (auto simp: is_number_space_def is_space_def Let_def)

lemma newline_is_space: "is_space newline"
  by (simp add: is_space_def newline_def code_point_def)

lemma replace_newline_filter: "replace_newline [] u = filter (\<lambda>c. c \<noteq> newline) u"
  by (induction u) (simp_all add: replace_newline_def)

lemma hd_filter_keep: "u \<noteq> [] \<Longrightarrow> Q (hd u) \<Longrightarrow> hd (filter Q u) = hd u"
  by (cases u) simp_all

lemma last_filter_keep:
  assumes "u \<noteq> []" "Q (last u)"
  shows "last (filter Q u) = last u"
proof -
  from assms(1) have "u = butlast u @ [last u]" by simp
  then have "filter Q u = filter Q (butlast u) @ filter Q [last u]"
    by (metis filter_append)
  with assms(2) show ?thesis by simp
qed

lemma trimmed_fixed:
  "strip_number_space (replace_newline [] (py_strip s)) = replace_newline [] (py_strip s)"
proof (cases "py_strip s = []")
  case True
  then show ?thesis by (simp add: replace_newline_def strip_number_space_def)
next
  case False
  define u where "u = py_strip s"
  define t where "t = filter (\<lambda>c. c \<noteq> newline) u"
  from False have u: "u \<noteq> []" by (simp add: u_def)
  from False have e: "\<not> is_space (hd u)" "\<not> is_space (last u)"
    using strip_ends [of is_space s] by (simp_all add: py_strip_def u_def)
  then have n: "hd u \<noteq> newline" "last u \<noteq> newline"
    using newline_is_space by auto
  have h: "hd t = hd u" unfolding t_def using u n(1) by (rule hd_filter_keep)
  have l: "last t = last u" unfolding t_def using u n(2) by (rule last_filter_keep)
  have "hd u \<in> set t" using u n(1) by (simp add: t_def)
  then have t: "t \<noteq> []" by auto
  from e h l have "\<not> is_number_space (hd t)" "\<not> is_number_space (last t)"
    using number_space_is_space by auto
  with t have "rev (dropWhile is_number_space (rev (dropWhile is_number_space t))) = t"
    by (rule strip_fixed)
  then show ?thesis
    by (simp add: strip_number_space_def replace_newline_filter t_def u_def)
qed

section \<open>The conversions accept every literal of the grammar\<close>

lemma group_digitpart: "digit_group ds \<Longrightarrow> \<exists>r. digitpart ds = Some r"
  by (induction ds rule: digit_group.induct) (auto split: if_splits)

lemma group_chars: "digit_group ds \<Longrightarrow> c \<in> set ds \<Longrightarrow> is_digit c \<or> c = CHR ''_''"
  by (induction ds rule: digit_group.induct) (auto split: if_splits)

lemma digit_chars:
  assumes "is_digit c \<or> c = CHR ''_''"
  shows "c \<noteq> CHR ''.''" "\<not> is_exp_marker c" "c \<noteq> CHR ''-''" "c \<noteq> CHR ''+''"
    "\<not> is_number_space c"
  using assms by (auto simp: char_class_defs Let_def)

lemma takeWhile_all: "(\<forall>x\<in>set xs. P x) \<Longrightarrow> \<not> P y \<Longrightarrow> takeWhile P (xs @ y # ys) = xs"
  by (induction xs) simp_all

lemma dropWhile_all: "(\<forall>x\<in>set xs. P x) \<Longrightarrow> \<not> P y \<Longrightarrow> dropWhile P (xs @ y # ys) = y # ys"
  by (induction xs) simp_all

lemma group_mantissa:
  assumes "digit_group m"
  shows "\<exists>q. mantissa_val m = Some q"
proof -
  have "\<forall>c\<in>set m. c \<noteq> CHR ''.''"
    using group_chars [OF assms] digit_chars(1) by blast
  then have tw: "takeWhile (\<lambda>c. c \<noteq> CHR ''.'') m = m" "dropWhile (\<lambda>c. c \<noteq> CHR ''.'') m = []"
    by simp_all
  from group_digitpart [OF assms] obtain r where "digitpart m = Some r" ..
  then show ?thesis
    unfolding mantissa_val_def Let_def tw by simp
qed

lemma point_mantissa:
  assumes "\<forall>c\<in>set ip. c \<noteq> CHR ''.''"
    and "digit_group ip \<and> (fp = [] \<or> digit_group fp) \<or> ip = [] \<and> digit_group fp"
  shows "\<exists>q. mantissa_val (ip @ CHR ''.'' # fp) = Some q"
proof -
  have tw: "takeWhile (\<lambda>c. c \<noteq> CHR ''.'') (ip @ CHR ''.'' # fp) = ip"
    "dropWhile (\<lambda>c. c \<noteq> CHR ''.'') (ip @ CHR ''.'' # fp) = CHR ''.'' # fp"
    using assms(1) by (simp_all add: takeWhile_all dropWhile_all)
  have e: "mantissa_val (ip @ CHR ''.'' # fp) =
            (if fp = [] then map_option (\<lambda>ds. of_nat (digits_val ds)) (digitpart ip)
             else (case digitpart fp of
                     None \<Rightarrow> None
                   | Some fs \<Rightarrow>
                       if ip = [] then Some (of_nat (digits_val fs) / 10 ^ length fs)
                       else map_option
                              (\<lambda>ds. of_nat (digits_val (ds @ fs)) / 10 ^ length fs)
                              (digitpart ip)))"
    unfolding mantissa_val_def Let_def tw by simp
  show ?thesis
  proof (cases "fp = []")
    case True
    with assms(2) have "digit_group ip" by auto
    from group_digitpart [OF this] obtain r where "digitpart ip = Some r" ..
    with True e show ?thesis by simp
  next
    case False
    with assms(2) have "digit_group fp" by auto
    from group_digitpart [OF this] obtain fs where fs: "digitpart fp = Some fs" ..
    show ?thesis
    proof (cases "ip = []")
      case True
      with False fs e show ?thesis by simp
    next
      case ne: False
      with assms(2) have "digit_group ip" by auto
      from group_digitpart [OF this] obtain r where "digitpart ip = Some r" ..
      with False ne fs e show ?thesis by simp
    qed
  qed
qed

lemma number_mantissa:
  assumes "number_text m"
  shows "\<exists>q. mantissa_val m = Some q"
proof (cases "digit_group m")
  case True
  then show ?thesis by (rule group_mantissa)
next
  case False
  with assms have "\<exists>k\<in>set [0 ..< length m]. m ! k = CHR ''.'' \<and>
      (digit_group (take k m)
         \<and> (drop (Suc k) m = [] \<or> digit_group (drop (Suc k) m))
       \<or> k = 0 \<and> digit_group (drop (Suc k) m))"
    unfolding number_text_def list_ex_iff by blast
  then obtain k where kk: "k \<in> set [0 ..< length m]" and k2: "m ! k = CHR ''.''"
    and d: "digit_group (take k m)
              \<and> (drop (Suc k) m = [] \<or> digit_group (drop (Suc k) m))
            \<or> k = 0 \<and> digit_group (drop (Suc k) m)"
    by blast
  from kk k2 have k: "k < length m" "m ! k = CHR ''.''" by simp_all
  have m: "m = take k m @ CHR ''.'' # drop (Suc k) m"
    using id_take_nth_drop [OF k(1)] k(2) by simp
  have np: "\<forall>c\<in>set (take k m). c \<noteq> CHR ''.''"
  proof (cases "take k m = []")
    case True
    then show ?thesis by auto
  next
    case ne: False
    with d k(1) have "digit_group (take k m)" by auto
    then show ?thesis using group_chars digit_chars(1) by blast
  qed
  from d k(1) have "digit_group (take k m)
              \<and> (drop (Suc k) m = [] \<or> digit_group (drop (Suc k) m))
            \<or> take k m = [] \<and> digit_group (drop (Suc k) m)"
    by auto
  from point_mantissa [OF np this] show ?thesis using m by simp
qed

lemma number_chars:
  assumes "number_text m" "c \<in> set m"
  shows "is_digit c \<or> c = CHR ''_'' \<or> c = CHR ''.''"
proof (cases "digit_group m")
  case True
  then show ?thesis using assms(2) group_chars by blast
next
  case False
  with assms(1) have "\<exists>k\<in>set [0 ..< length m]. m ! k = CHR ''.'' \<and>
      (digit_group (take k m)
         \<and> (drop (Suc k) m = [] \<or> digit_group (drop (Suc k) m))
       \<or> k = 0 \<and> digit_group (drop (Suc k) m))"
    unfolding number_text_def list_ex_iff by blast
  then obtain k where kk: "k \<in> set [0 ..< length m]" and k2: "m ! k = CHR ''.''"
    and d: "digit_group (take k m)
              \<and> (drop (Suc k) m = [] \<or> digit_group (drop (Suc k) m))
            \<or> k = 0 \<and> digit_group (drop (Suc k) m)"
    by blast
  from kk k2 have k: "k < length m" "m ! k = CHR ''.''" by simp_all
  have m: "m = take k m @ CHR ''.'' # drop (Suc k) m"
    using id_take_nth_drop [OF k(1)] k(2) by simp
  have a: "x \<in> set (take k m) \<Longrightarrow> is_digit x \<or> x = CHR ''_''" for x
  proof -
    assume x: "x \<in> set (take k m)"
    then have "k \<noteq> 0" by (cases k) simp_all
    with d have "digit_group (take k m)" by auto
    then show ?thesis using x by (rule group_chars)
  qed
  have b: "x \<in> set (drop (Suc k) m) \<Longrightarrow> is_digit x \<or> x = CHR ''_''" for x
  proof -
    assume x: "x \<in> set (drop (Suc k) m)"
    then have "drop (Suc k) m \<noteq> []" by auto
    with d have "digit_group (drop (Suc k) m)" by auto
    then show ?thesis using x by (rule group_chars)
  qed
  from assms(2) have "c \<in> set (take k m) \<or> c = CHR ''.'' \<or> c \<in> set (drop (Suc k) m)"
    by (subst (asm) m) auto
  then show ?thesis using a b by blast
qed

lemma signed_exponent:
  assumes "signed_digits x"
  shows "\<exists>e. exponent_val x = Some e"
proof (cases "digit_group x")
  case True
  then obtain c cs where x: "x = c # cs" by (cases x) auto
  with True have "is_digit c \<or> c = CHR ''_''" using group_chars [of x c] by simp
  then have s: "c \<noteq> CHR ''-''" "c \<noteq> CHR ''+''" by (rule digit_chars)+
  from group_digitpart [OF True] obtain r where "digitpart (c # cs) = Some r"
    unfolding x ..
  with s show ?thesis by (simp add: exponent_val_def x)
next
  case False
  with assms obtain c cs where x: "x = c # cs" and c: "c = CHR ''+'' \<or> c = CHR ''-''"
    and g: "digit_group cs"
    by (cases x) (auto simp: signed_digits_def has_sign_def)
  from group_digitpart [OF g] obtain r where "digitpart cs = Some r" ..
  with c show ?thesis by (auto simp: exponent_val_def x)
qed

lemma abs_float_rejects:
  assumes "abs_float neg b = None"
  shows "mantissa_val (takeWhile (\<lambda>c. \<not> is_exp_marker c) b) = None
         \<or> (\<exists>p x. dropWhile (\<lambda>c. \<not> is_exp_marker c) b = p # x \<and> exponent_val x = None)"
proof (cases "mantissa_val (takeWhile (\<lambda>c. \<not> is_exp_marker c) b)")
  case None
  then show ?thesis by simp
next
  case (Some q)
  show ?thesis
  proof (cases "dropWhile (\<lambda>c. \<not> is_exp_marker c) b")
    case Nil
    from assms show ?thesis
      unfolding abs_float_def Let_def Some Nil by (simp split: if_splits)
  next
    case (Cons p x)
    from assms have "exponent_val x = None"
      unfolding abs_float_def Let_def Some Cons by (simp split: if_splits)
    with Cons show ?thesis by simp
  qed
qed

lemma number_no_marker:
  assumes "number_text m" "c \<in> set m"
  shows "\<not> is_exp_marker c" and "\<not> is_number_space c" and "c \<noteq> CHR ''-''" and "c \<noteq> CHR ''+''"
proof -
  from number_chars [OF assms] have "is_digit c \<or> c = CHR ''_'' \<or> c = CHR ''.''" .
  then show "\<not> is_exp_marker c" and "\<not> is_number_space c" and "c \<noteq> CHR ''-''"
    and "c \<noteq> CHR ''+''"
    by (auto simp: char_class_defs Let_def)
qed

lemma float_number_cases:
  assumes "float_number b"
  obtains "number_text b"
  | k where "k < length b" "is_exp_marker (b ! k)" "number_text (take k b)"
      "signed_digits (drop (Suc k) b)" "b = take k b @ b ! k # drop (Suc k) b"
proof (cases "number_text b")
  case True
  then show ?thesis by (rule that(1))
next
  case False
  with assms have "\<exists>k\<in>set [0 ..< length b]. is_exp_marker (b ! k) \<and> number_text (take k b)
                 \<and> signed_digits (drop (Suc k) b)"
    unfolding float_number_def list_ex_iff by blast
  then obtain k where kk: "k \<in> set [0 ..< length b]" and m: "is_exp_marker (b ! k)"
    and n: "number_text (take k b)" and x: "signed_digits (drop (Suc k) b)"
    by blast
  from kk have k: "k < length b" by simp
  from id_take_nth_drop [OF k] have "b = take k b @ b ! k # drop (Suc k) b" .
  with k m n x show ?thesis by (rule that(2))
qed

lemma float_number_accepted:
  assumes "float_number b"
  shows "\<exists>v. abs_float neg b = Some v"
proof (rule ccontr)
  assume "\<not> (\<exists>v. abs_float neg b = Some v)"
  then have "abs_float neg b = None" by simp
  from abs_float_rejects [OF this]
  have r: "mantissa_val (takeWhile (\<lambda>c. \<not> is_exp_marker c) b) = None
         \<or> (\<exists>p x. dropWhile (\<lambda>c. \<not> is_exp_marker c) b = p # x \<and> exponent_val x = None)" .
  from assms show False
  proof (cases rule: float_number_cases)
    case 1
    then have "\<forall>c\<in>set b. \<not> is_exp_marker c" using number_no_marker(1) by blast
    then have "takeWhile (\<lambda>c. \<not> is_exp_marker c) b = b"
      "dropWhile (\<lambda>c. \<not> is_exp_marker c) b = []"
      by simp_all
    with r number_mantissa [OF 1] show False by simp
  next
    case (2 k)
    define m where "m = take k b"
    define x where "x = drop (Suc k) b"
    from 2(5) have b: "b = m @ b ! k # x" by (simp add: m_def x_def)
    from 2(3) have "\<forall>c\<in>set m. \<not> is_exp_marker c"
      unfolding m_def using number_no_marker(1) by blast
    then have "takeWhile (\<lambda>c. \<not> is_exp_marker c) (m @ b ! k # x) = m"
      "dropWhile (\<lambda>c. \<not> is_exp_marker c) (m @ b ! k # x) = b ! k # x"
      using 2(2) by (simp_all add: takeWhile_all dropWhile_all)
    then have tw: "takeWhile (\<lambda>c. \<not> is_exp_marker c) b = m"
      "dropWhile (\<lambda>c. \<not> is_exp_marker c) b = b ! k # x"
      using b by simp_all
    from number_mantissa [OF 2(3)] obtain q where "mantissa_val m = Some q"
      unfolding m_def ..
    moreover from signed_exponent [OF 2(4)] obtain e where "exponent_val x = Some e"
      unfolding x_def ..
    ultimately show False using r unfolding tw by simp
  qed
qed

lemma signed_chars:
  assumes "signed_digits x" "c \<in> set x"
  shows "\<not> is_number_space c"
proof (cases "digit_group x")
  case True
  from group_chars [OF True assms(2)] show ?thesis by (rule digit_chars)
next
  case False
  with assms(1) obtain s cs where x: "x = s # cs" and s: "s = CHR ''+'' \<or> s = CHR ''-''"
    and g: "digit_group cs"
    by (cases x) (auto simp: signed_digits_def has_sign_def)
  from assms(2) x have "c = s \<or> c \<in> set cs" by simp
  then show ?thesis
  proof
    assume "c = s"
    with s show ?thesis by (auto simp: char_class_defs Let_def)
  next
    assume "c \<in> set cs"
    from group_chars [OF g this] show ?thesis by (rule digit_chars)
  qed
qed

lemma float_number_chars:
  assumes "float_number b" "c \<in> set b"
  shows "\<not> is_number_space c"
  using assms(1)
proof (cases rule: float_number_cases)
  case 1
  then show ?thesis using assms(2) by (rule number_no_marker)
next
  case (2 k)
  from assms(2) have "c \<in> set (take k b @ b ! k # drop (Suc k) b)"
    using 2(5) by simp
  then have "c \<in> set (take k b) \<or> c = b ! k \<or> c \<in> set (drop (Suc k) b)"
    by auto
  then show ?thesis
  proof (elim disjE)
    assume "c \<in> set (take k b)"
    with 2(3) show ?thesis by (rule number_no_marker)
  next
    assume "c = b ! k"
    with 2(2) show ?thesis by (auto simp: char_class_defs Let_def)
  next
    assume "c \<in> set (drop (Suc k) b)"
    with 2(4) show ?thesis by (rule signed_chars)
  qed
qed

lemma float_number_head:
  assumes "float_number (c # cs)"
  shows "c \<noteq> CHR ''-''" and "c \<noteq> CHR ''+''"
proof -
  have n: "\<exists>m. number_text m \<and> c \<in> set m"
    using assms
  proof (cases rule: float_number_cases)
    case 1
    then show ?thesis by auto
  next
    case (2 k)
    have "k \<noteq> 0"
    proof
      assume "k = 0"
      with 2(3) show False by (simp add: number_text_def)
    qed
    then have "c \<in> set (take k (c # cs))" by (cases k) simp_all
    with 2(3) show ?thesis by blast
  qed
  then obtain m where m: "number_text m" "c \<in> set m" by blast
  from m show "c \<noteq> CHR ''-''" by (rule number_no_marker)
  from m show "c \<noteq> CHR ''+''" by (rule number_no_marker)
qed

lemma float_number_not_Nil: "\<not> float_number []"
  by (simp add: float_number_def number_text_def)

lemma strip_all_kept:
  assumes "\<forall>c\<in>set t. \<not> P c"
  shows "rev (dropWhile P (rev (dropWhile P t))) = t"
proof -
  have "dropWhile P t = t" using assms by (cases t) simp_all
  moreover have "dropWhile P (rev t) = rev t" using assms by (cases "rev t") (auto simp: )
  ultimately show ?thesis by simp
qed

lemma numeric_literal_cases:
  assumes "numeric_literal t"
  obtains c cs where "t = c # cs" "float_number t" "c \<noteq> CHR ''-''" "c \<noteq> CHR ''+''"
  | c cs where "t = c # cs" "c = CHR ''+'' \<or> c = CHR ''-''" "float_number cs"
proof (cases "float_number t")
  case True
  then obtain c cs where t: "t = c # cs" using float_number_not_Nil by (cases t) auto
  from True float_number_head [of c cs] have "c \<noteq> CHR ''-''" "c \<noteq> CHR ''+''"
    unfolding t by simp_all
  with t True show ?thesis by (rule that(1))
next
  case False
  with assms have "has_sign t" "float_number (tl t)"
    by (simp_all add: numeric_literal_def)
  then obtain c cs where "t = c # cs" "c = CHR ''+'' \<or> c = CHR ''-''" "float_number cs"
    by (cases t) (auto simp: has_sign_def)
  then show ?thesis by (rule that(2))
qed

lemma numeric_literal_no_space:
  assumes "numeric_literal t"
  shows "strip_number_space t = t"
proof -
  have "\<forall>x\<in>set t. \<not> is_number_space x"
    using assms
  proof (cases rule: numeric_literal_cases)
    case (1 c cs)
    then show ?thesis using float_number_chars by blast
  next
    case (2 c cs)
    from 2(2) have "\<not> is_number_space c" by (auto simp: char_class_defs Let_def)
    moreover have "\<forall>x\<in>set cs. \<not> is_number_space x"
      using 2(3) float_number_chars by blast
    ultimately show ?thesis by (simp add: 2(1))
  qed
  then show ?thesis unfolding strip_number_space_def by (rule strip_all_kept)
qed

lemma numeric_literal_accepted:
  assumes "numeric_literal t"
  shows "\<exists>v. py_float t = Some v"
  using assms
proof (cases rule: numeric_literal_cases)
  case (1 c cs)
  from float_number_accepted [OF 1(2)] obtain v where "abs_float False t = Some v" ..
  then show ?thesis
    unfolding py_float_def numeric_literal_no_space [OF assms] using 1(1,3,4) by simp
next
  case (2 c cs)
  from float_number_accepted [OF 2(3)] obtain v w
    where "abs_float True cs = Some v" "abs_float False cs = Some w"
    by blast
  then show ?thesis
    unfolding py_float_def numeric_literal_no_space [OF assms] using 2(1,2) by auto
qed

lemma special_word_letters:
  assumes "special_word b" "c \<in> set b"
  shows "lower_ascii c \<in> set ''infinityan''"
proof -
  from assms(2) have "lower_ascii c \<in> set (map lower_ascii b)" by simp
  moreover from assms(1) have "set (map lower_ascii b) \<subseteq> set ''infinityan''"
    by (auto simp: special_word_def Let_def)
  ultimately show ?thesis by blast
qed

lemma letter_no_space:
  assumes "lower_ascii c \<in> set ''infinityan''"
  shows "\<not> is_number_space c" and "c \<noteq> CHR ''-''" and "c \<noteq> CHR ''+''"
proof -
  show "c \<noteq> CHR ''-''" "c \<noteq> CHR ''+''"
    using assms by (auto simp: lower_ascii_def code_point_def Let_def)
  show "\<not> is_number_space c"
  proof
    assume s: "is_number_space c"
    then have "lower_ascii c = c"
      by (auto simp: lower_ascii_def is_number_space_def Let_def)
    with assms have "c \<in> set ''infinityan''" by simp
    with s show False by (auto simp: is_number_space_def code_point_def Let_def)
  qed
qed

lemma special_word_accepted: "special_word b \<Longrightarrow> \<exists>v. abs_float neg b = Some v"
  by (auto simp: special_word_def abs_float_def Let_def)

lemma special_word_not_Nil: "\<not> special_word []"
  by (simp add: special_word_def)

lemma special_literal_cases:
  assumes "special_literal t"
  obtains c cs where "t = c # cs" "special_word t" "c \<noteq> CHR ''-''" "c \<noteq> CHR ''+''"
  | c cs where "t = c # cs" "c = CHR ''+'' \<or> c = CHR ''-''" "special_word cs"
proof (cases "special_word t")
  case True
  then obtain c cs where t: "t = c # cs" using special_word_not_Nil by (cases t) auto
  from True have "lower_ascii c \<in> set ''infinityan''"
    unfolding t by (rule special_word_letters) simp
  then have "c \<noteq> CHR ''-''" "c \<noteq> CHR ''+''" by (rule letter_no_space)+
  with t True show ?thesis by (rule that(1))
next
  case False
  with assms have "has_sign t" "special_word (tl t)"
    by (simp_all add: special_literal_def)
  then obtain c cs where "t = c # cs" "c = CHR ''+'' \<or> c = CHR ''-''" "special_word cs"
    by (cases t) (auto simp: has_sign_def)
  then show ?thesis by (rule that(2))
qed

lemma special_literal_no_space:
  assumes "special_literal t"
  shows "strip_number_space t = t"
proof -
  have "\<forall>x\<in>set t. \<not> is_number_space x"
    using assms
  proof (cases rule: special_literal_cases)
    case (1 c cs)
    then show ?thesis using special_word_letters letter_no_space(1) by blast
  next
    case (2 c cs)
    from 2(2) have "\<not> is_number_space c" by (auto simp: char_class_defs Let_def)
    moreover have "\<forall>x\<in>set cs. \<not> is_number_space x"
      using 2(3) special_word_letters letter_no_space(1) by blast
    ultimately show ?thesis by (simp add: 2(1))
  qed
  then show ?thesis unfolding strip_number_space_def by (rule strip_all_kept)
qed

lemma special_literal_accepted:
  assumes "special_literal t"
  shows "\<exists>v. py_float t = Some v"
  using assms
proof (cases rule: special_literal_cases)
  case (1 c cs)
  from special_word_accepted [OF 1(2)] obtain v where "abs_float False t = Some v" ..
  then show ?thesis
    unfolding py_float_def special_literal_no_space [OF assms] using 1(1,3,4) by simp
next
  case (2 c cs)
  from special_word_accepted [OF 2(3)] obtain v w
    where "abs_float True cs = Some v" "abs_float False cs = Some w"
    by blast
  then show ?thesis
    unfolding py_float_def special_literal_no_space [OF assms] using 2(1,2) by auto
qed

lemma py_float_of_stripped:
  assumes "strip_number_space (strip_number_space t) = strip_number_space t"
  shows "py_float t = py_float (strip_number_space t)"
  unfolding py_float_def assms ..

text \<open>\<^verbatim>\<open>float()\<close> accepts exactly the literals of the grammar and the special words.\<close>

lemma py_float_accepts_iff:
  "(\<exists>v. py_float t = Some v) \<longleftrightarrow>
     numeric_literal (strip_number_space t) \<or> special_literal (strip_number_space t)"
proof
  assume "\<exists>v. py_float t = Some v"
  then obtain v where "py_float t = Some v" ..
  then show "numeric_literal (strip_number_space t) \<or> special_literal (strip_number_space t)"
    by (rule py_float_literal)
next
  assume a: "numeric_literal (strip_number_space t) \<or> special_literal (strip_number_space t)"
  then have "strip_number_space (strip_number_space t) = strip_number_space t"
    using numeric_literal_no_space special_literal_no_space by blast
  then have "py_float t = py_float (strip_number_space t)"
    by (rule py_float_of_stripped)
  with a show "\<exists>v. py_float t = Some v"
    using numeric_literal_accepted special_literal_accepted by metis
qed

lemma underscore_no_digit: "\<not> is_digit CHR ''_''"
  by (simp add: is_digit_def code_point_def)

lemma sign_no_digit: "\<not> is_digit CHR ''-''" "\<not> is_digit CHR ''+''"
  by (simp_all add: is_digit_def code_point_def)

lemma digitpart_filter: "digitpart ds = Some r \<Longrightarrow> r = filter is_digit ds"
  by (induction ds arbitrary: r rule: digitpart.induct)
    (auto simp: underscore_no_digit split: if_splits)

lemma int_digits_iff:
  "(\<exists>n. int_digits ds = Some n) \<longleftrightarrow> digit_group ds \<and> length (filter is_digit ds) \<le> 4300"
proof
  assume "\<exists>n. int_digits ds = Some n"
  then obtain n where n: "int_digits ds = Some n" ..
  then obtain r where r: "digitpart ds = Some r" and l: "length r \<le> 4300"
    by (auto simp: int_digits_def split: option.splits if_splits)
  from digitpart_filter [OF r] l int_digits_group [OF n]
  show "digit_group ds \<and> length (filter is_digit ds) \<le> 4300" by simp
next
  assume a: "digit_group ds \<and> length (filter is_digit ds) \<le> 4300"
  then obtain r where r: "digitpart ds = Some r" using group_digitpart by blast
  from digitpart_filter [OF r] a have "length r \<le> 4300" by simp
  with r show "\<exists>n. int_digits ds = Some n" by (simp add: int_digits_def)
qed

lemma signed_digits_cases:
  assumes "signed_digits x"
  obtains c cs where "x = c # cs" "digit_group x" "c \<noteq> CHR ''-''" "c \<noteq> CHR ''+''"
  | c cs where "x = c # cs" "c = CHR ''+'' \<or> c = CHR ''-''" "digit_group cs"
proof (cases "digit_group x")
  case True
  then obtain c cs where x: "x = c # cs" by (cases x) auto
  with True have "is_digit c \<or> c = CHR ''_''" using group_chars [of x c] by simp
  then have "c \<noteq> CHR ''-''" "c \<noteq> CHR ''+''" by (rule digit_chars)+
  with x True show ?thesis by (rule that(1))
next
  case False
  with assms obtain c cs where "x = c # cs" "c = CHR ''+'' \<or> c = CHR ''-''" "digit_group cs"
    by (cases x) (auto simp: signed_digits_def has_sign_def)
  then show ?thesis by (rule that(2))
qed

lemma integer_literal_no_space:
  assumes "integer_literal t"
  shows "strip_number_space t = t"
proof -
  from assms have "\<forall>x\<in>set t. \<not> is_number_space x"
    unfolding integer_literal_def using signed_chars by blast
  then show ?thesis unfolding strip_number_space_def by (rule strip_all_kept)
qed

lemma integer_literal_accepted:
  assumes "integer_literal t" "length (filter is_digit t) \<le> 4300"
  shows "\<exists>n. py_int t = Some n"
proof -
  from assms(1) have "signed_digits t" by (simp add: integer_literal_def)
  then show ?thesis
  proof (cases rule: signed_digits_cases)
    case (1 c cs)
    with assms(2) obtain n where "int_digits t = Some n"
      using int_digits_iff [of t] by blast
    then show ?thesis
      unfolding py_int_def integer_literal_no_space [OF assms(1)] using 1(1,3,4) by simp
  next
    case (2 c cs)
    from 2(1,2) assms(2) have "length (filter is_digit cs) \<le> 4300"
      by (auto simp: sign_no_digit)
    with 2(3) obtain n where "int_digits cs = Some n"
      using int_digits_iff [of cs] by blast
    then show ?thesis
      unfolding py_int_def integer_literal_no_space [OF assms(1)] using 2(1,2) by auto
  qed
qed

lemma py_int_digit_limit:
  assumes "py_int t = Some n"
  shows "length (filter is_digit (strip_number_space t)) \<le> 4300"
proof (cases "strip_number_space t")
  case Nil
  then show ?thesis by simp
next
  case (Cons c cs)
  show ?thesis
  proof (cases "c = CHR ''-'' \<or> c = CHR ''+''")
    case True
    with assms Cons obtain k where "int_digits cs = Some k"
      by (auto simp: py_int_def split: if_splits)
    then have "length (filter is_digit cs) \<le> 4300"
      using int_digits_iff [of cs] by blast
    with True show ?thesis unfolding Cons by (auto simp: sign_no_digit)
  next
    case False
    with assms Cons obtain k where "int_digits (c # cs) = Some k"
      by (auto simp: py_int_def)
    then show ?thesis
      unfolding Cons using int_digits_iff [of "c # cs"] by blast
  qed
qed

lemma py_int_of_stripped:
  assumes "strip_number_space (strip_number_space t) = strip_number_space t"
  shows "py_int t = py_int (strip_number_space t)"
  unfolding py_int_def assms ..

text \<open>
  \<^verbatim>\<open>int()\<close> accepts exactly the integer literals of the grammar with at most 4300
  digits.
\<close>

lemma py_int_accepts_iff:
  "(\<exists>n. py_int t = Some n) \<longleftrightarrow>
     integer_literal (strip_number_space t)
     \<and> length (filter is_digit (strip_number_space t)) \<le> 4300"
proof
  assume "\<exists>n. py_int t = Some n"
  then obtain n where "py_int t = Some n" ..
  then show "integer_literal (strip_number_space t)
     \<and> length (filter is_digit (strip_number_space t)) \<le> 4300"
    using py_int_literal py_int_digit_limit by blast
next
  assume a: "integer_literal (strip_number_space t)
     \<and> length (filter is_digit (strip_number_space t)) \<le> 4300"
  then have "strip_number_space (strip_number_space t) = strip_number_space t"
    using integer_literal_no_space by blast
  then have "py_int t = py_int (strip_number_space t)"
    by (rule py_int_of_stripped)
  with a show "\<exists>n. py_int t = Some n"
    using integer_literal_accepted by metis
qed

section \<open>The field normalizers on numbers\<close>

text \<open>
  C6. A float literal in scientific notation with the exponent \<open>-8\<close> is not always
  normalized to \<^verbatim>\<open>0.0\<close>: the literal \<^verbatim>\<open>1.5E-08\<close> has this exponent, the marker
  \<^verbatim>\<open>E-8\<close> is not in it, and the normalizer returns the value of the literal, which is
  not zero.
\<close>

theorem exponent_minus8_not_zeroed:
  "sci_exponent ''1.5E-08'' = Some (- 8)
   \<and> parse_float (Some ''1.5E-08'') = to_binary64 False (15 / 10 * 10 powi (- 8))
   \<and> to_binary64 False (15 / 10 * 10 powi (- 8)) \<noteq> Finite 0"
proof -
  have f: "py_float ''1.5E-08'' = Some (to_binary64 False (15 / 10 * 10 powi (- 8)))"
    by (simp add: float_defs char_class_defs)
  have e: "sci_exponent ''1.5E-08'' = Some (- 8)"
    unfolding sci_exponent_def exponent_text_def f
    by (simp add: strip_number_space_def exponent_val_def digits_val_def digit_val_def
        char_class_defs)
  have t: "replace_newline [] (py_strip ''1.5E-08'') = ''1.5E-08''"
    by (simp add: py_strip_def replace_newline_def char_class_defs)
  have n: "\<not> sublist ''E-8'' ''1.5E-08''" "\<not> sublist ''e-8'' ''1.5E-08''"
    by (simp_all add: sublist_code)
  have p: "parse_float (Some ''1.5E-08'') = to_binary64 False (15 / 10 * 10 powi (- 8))"
    using n f by (simp add: parse_float_def Let_def t)
  from e p float_15E8_nonzero show ?thesis by simp
qed

text \<open>
  C6, as the code has it. A float literal in scientific notation whose exponent is
  written \<^verbatim>\<open>-8\<close>, these two characters after the \<^verbatim>\<open>e\<close> or \<^verbatim>\<open>E\<close>, has the exponent
  \<open>-8\<close> and is normalized to exactly \<^verbatim>\<open>0.0\<close>, whatever its mantissa and the white space
  around it.
\<close>

theorem parse_float_exponent_written_minus8:
  assumes "exponent_text s = Some ''-8''"
  shows "sci_exponent s = Some (- 8) \<and> parse_float (Some s) = Finite 0"
proof -
  from assms obtain c
    where d: "dropWhile (\<lambda>c. \<not> is_exp_marker c) (strip_number_space s) = c # ''-8''"
    by (auto simp: exponent_text_def split: if_splits list.splits)
  from dropWhile_split [OF d] have c: "is_exp_marker c"
    and t: "strip_number_space s =
              takeWhile (\<lambda>c. \<not> is_exp_marker c) (strip_number_space s) @ c # ''-8''"
    by simp_all
  from t have "suffix (c # ''-8'') (strip_number_space s)"
    by (rule suffixI)
  then have "sublist (c # ''-8'') (strip_number_space s)"
    by (rule suffix_imp_sublist)
  then have "sublist (c # ''-8'') s"
    using sublist_strip_number_space sublist_order.order_trans by blast
  with c have "sublist ''E-8'' s \<or> sublist ''e-8'' s"
    by (auto simp: is_exp_marker_def)
  then have "parse_float (Some s) = Finite 0"
    by (rule parse_float_marker)
  moreover have "sci_exponent s = Some (- 8)"
    unfolding sci_exponent_def assms
    by (simp add: exponent_val_def digits_val_def digit_val_def char_class_defs)
  ultimately show ?thesis by simp
qed

text \<open>
  The literal \<^verbatim>\<open>1.5E-8\<close> is such a text: \<^verbatim>\<open>float()\<close> reads it as a number that
  is not zero, and the normalizer gives \<^verbatim>\<open>0.0\<close>.
\<close>

theorem parse_float_exponent_written_minus8_witness:
  "exponent_text ''1.5E-8'' = Some ''-8''
   \<and> sci_exponent ''1.5E-8'' = Some (- 8)
   \<and> py_float ''1.5E-8'' = Some (to_binary64 False (15 / 10 * 10 powi (- 8)))
   \<and> to_binary64 False (15 / 10 * 10 powi (- 8)) \<noteq> Finite 0
   \<and> parse_float (Some ''1.5E-8'') = Finite 0"
proof -
  have h: "exponent_text ''1.5E-8'' = Some ''-8''"
    unfolding exponent_text_def float_15E8
    by (simp add: strip_number_space_def char_class_defs)
  show ?thesis
    using h parse_float_exponent_written_minus8 [OF h] float_15E8 float_15E8_nonzero by simp
qed

text \<open>
  C7. A text that is no well-formed numeric literal is not always normalized to
  \<^verbatim>\<open>0.0\<close>: \<^verbatim>\<open>nan\<close> and \<^verbatim>\<open>-Infinity\<close> are no numbers of the grammar, \<^verbatim>\<open>float()\<close>
  accepts them, and the normalizer returns not-a-number and the negative infinity.
\<close>

theorem special_word_not_defaulted:
  "\<not> numeric_literal ''nan'' \<and> parse_float (Some ''nan'') = NaN
   \<and> \<not> numeric_literal ''-Infinity'' \<and> parse_float (Some ''-Infinity'') = NegInf
   \<and> NaN \<noteq> Finite 0 \<and> NegInf \<noteq> Finite 0"
proof -
  have "\<not> numeric_literal ''nan''" "\<not> numeric_literal ''-Infinity''"
    by code_simp+
  moreover have "parse_float (Some ''nan'') = NaN"
    by (simp add: parse_float_def Let_def py_strip_def replace_newline_def sublist_code
        float_defs char_class_defs)
  moreover have "parse_float (Some ''-Infinity'') = NegInf"
    by code_simp
  ultimately show ?thesis by simp
qed

text \<open>
  C7, as the code has it. The normalizers trim the text and take the newlines out of
  it. If what remains is neither a numeric literal of the grammar nor one of the words
  for the infinities and for not-a-number, the float normalizer returns \<^verbatim>\<open>0.0\<close>; if it
  is no integer literal, the integer normalizer returns \<^verbatim>\<open>0\<close>. So they do on the empty
  text and on \<^verbatim>\<open>None\<close>. The one exception of the two bodies is the \<^verbatim>\<open>ValueError\<close> of
  the conversion, which accepts literals of the grammar only and which the \<^verbatim>\<open>except\<close>
  turns into the default: neither normalizer raises.
\<close>

theorem normalizers_default_on_nonliteral:
  "(s = [] \<or> (\<not> numeric_literal (replace_newline [] (py_strip s))
              \<and> \<not> special_literal (replace_newline [] (py_strip s)))
      \<longrightarrow> parse_float (Some s) = Finite 0)
   \<and> (s = [] \<or> \<not> integer_literal (replace_newline [] (py_strip s))
      \<longrightarrow> parse_int (Some s) = 0)
   \<and> parse_float None = Finite 0 \<and> parse_int None = 0"
proof -
  define t where "t = replace_newline [] (py_strip s)"
  have fixed: "strip_number_space t = t"
    unfolding t_def by (rule trimmed_fixed)
  have f: "parse_float (Some s) = Finite 0"
    if "s = [] \<or> (\<not> numeric_literal t \<and> \<not> special_literal t)"
  proof (cases "py_float t")
    case None
    then show ?thesis by (simp add: parse_float_def Let_def t_def)
  next
    case (Some v)
    from py_float_literal [OF Some] have "numeric_literal t \<or> special_literal t"
      unfolding fixed .
    with that have "s = []" by blast
    then show ?thesis by (simp add: parse_float_def)
  qed
  have i: "parse_int (Some s) = 0" if "s = [] \<or> \<not> integer_literal t"
  proof (cases "py_int t")
    case None
    then show ?thesis by (simp add: parse_int_def t_def)
  next
    case (Some n)
    from py_int_literal [OF Some] have "integer_literal t"
      unfolding fixed .
    with that have "s = []" by blast
    then show ?thesis by (simp add: parse_int_def)
  qed
  have "parse_float None = Finite 0" "parse_int None = 0"
    by (simp_all add: parse_float_def parse_int_def)
  with f i show ?thesis unfolding t_def by blast
qed

text \<open>
  An amount with a comma is such a text: it is no literal of the grammar, and both
  normalizers give the default.
\<close>

theorem normalizers_default_on_nonliteral_witness:
  "\<not> numeric_literal ''1,234'' \<and> \<not> special_literal ''1,234'' \<and> \<not> integer_literal ''1,234''
   \<and> replace_newline [] (py_strip '' 1,234'') = ''1,234''
   \<and> parse_float (Some '' 1,234'') = Finite 0 \<and> parse_int (Some '' 1,234'') = 0
   \<and> parse_float (Some []) = Finite 0 \<and> parse_int (Some []) = 0"
proof -
  have t: "replace_newline [] (py_strip '' 1,234'') = ''1,234''"
    by (simp add: py_strip_def replace_newline_def char_class_defs)
  have n: "\<not> numeric_literal ''1,234''" "\<not> special_literal ''1,234''"
    "\<not> integer_literal ''1,234''"
    by code_simp+
  show ?thesis
    using t n normalizers_default_on_nonliteral [of "'' 1,234''"]
      normalizers_default_on_nonliteral [of "[]"]
    by simp
qed

text \<open>
  C10. The test of the marker is a test of a substring: every text with \<^verbatim>\<open>E-8\<close> or
  \<^verbatim>\<open>e-8\<close> anywhere in it is normalized to \<^verbatim>\<open>0.0\<close>. The literal \<^verbatim>\<open>1.5E-80\<close> is
  well formed, \<^verbatim>\<open>float()\<close> reads it as a number that is not zero, and the normalizer
  gives \<^verbatim>\<open>0.0\<close>.
\<close>

theorem parse_float_marker_anywhere:
  "(sublist ''E-8'' s \<or> sublist ''e-8'' s \<longrightarrow> parse_float (Some s) = Finite 0)
   \<and> py_float ''1.5E-80'' = Some (to_binary64 False (15 / 10 * 10 powi (- 80)))
   \<and> to_binary64 False (15 / 10 * 10 powi (- 80)) \<noteq> Finite 0
   \<and> parse_float (Some ''1.5E-80'') = Finite 0"
proof -
  have "sublist ''E-8'' ''1.5E-80''"
    by (simp add: sublist_code)
  then have "parse_float (Some ''1.5E-80'') = Finite 0"
    by (simp add: parse_float_marker)
  then show ?thesis
    using float_15E80 float_15E80_nonzero parse_float_marker by blast
qed

theorem parse_float_marker_anywhere_witness:
  "sublist ''e-8'' ''rate 7e-8 %'' \<and> parse_float (Some ''rate 7e-8 %'') = Finite 0"
proof -
  have h: "sublist ''e-8'' ''rate 7e-8 %''"
    by (simp add: sublist_code)
  show ?thesis
    using h parse_float_marker_anywhere [of "''rate 7e-8 %''"] by simp
qed

section \<open>Lines\<close>

lemma split_lines_not_Nil: "split_lines t \<noteq> []"
  by (induction t) (auto split: list.splits)

lemma split_lines_line: "newline \<notin> set l \<Longrightarrow> split_lines (l @ newline # r) = l # split_lines r"
  by (induction l) (auto split: list.splits)

lemma split_lines_single: "newline \<notin> set l \<Longrightarrow> split_lines l = [l]"
  by (induction l) (auto split: list.splits)

lemma split_join_lines:
  "ls \<noteq> [] \<Longrightarrow> \<forall>l\<in>set ls. newline \<notin> set l \<Longrightarrow> split_lines (join_lines ls) = ls"
  by (induction ls rule: join_lines.induct) (simp_all add: split_lines_single split_lines_line)

lemma join_split_lines: "join_lines (split_lines t) = t"
proof (induction t)
  case Nil
  then show ?case by simp
next
  case (Cons c t)
  then show ?case
    using split_lines_not_Nil [of t]
    by (cases "split_lines t"; cases "tl (split_lines t)") (auto split: list.splits)
qed

lemma lines_no_newline: "l \<in> set (split_lines t) \<Longrightarrow> newline \<notin> set l"
  by (induction t arbitrary: l) (auto split: list.splits if_splits)

lemma line_in_join: "l \<in> set ls \<Longrightarrow> sublist l (join_lines ls)"
proof (induction ls rule: join_lines.induct)
  case (3 x y ys)
  show ?case
  proof (cases "l = x")
    case True
    then show ?thesis by simp
  next
    case False
    with 3 have "sublist l (join_lines (y # ys))" by simp
    then show ?thesis
      by (metis join_lines.simps(3) sublist_Cons_right sublist_append_leftI sublist_order.order_trans sublist_order.order_refl)
  qed
qed simp_all

lemma line_sublist: "l \<in> set (split_lines t) \<Longrightarrow> sublist l t"
  using line_in_join [of l "split_lines t"] by (simp add: join_split_lines)

lemma sublist_join_lines:
  "sublist h (join_lines ls) \<Longrightarrow> newline \<notin> set h \<Longrightarrow> h \<noteq> [] \<Longrightarrow> \<exists>l\<in>set ls. sublist h l"
proof (induction ls rule: join_lines.induct)
  case (3 x y ys)
  let ?r = "join_lines (y # ys)"
  from 3(2) have "sublist h (x @ newline # ?r)" by simp
  then consider "sublist h x" | "sublist h (newline # ?r)"
    | xs1 xs2 where "h = xs1 @ xs2" "suffix xs1 x" "prefix xs2 (newline # ?r)" "xs1 \<noteq> []" "xs2 \<noteq> []"
    by (auto simp: sublist_append) (metis append_Nil2 suffix_imp_sublist prefix_imp_sublist append_Nil)+
  then show ?case
  proof cases
    case 1
    then show ?thesis by auto
  next
    case 2
    then have "sublist h ?r"
      using 3(3,4) by (cases h) (auto simp: sublist_Cons_right prefix_Cons)
    with 3 show ?thesis by auto
  next
    case 3
    then have "newline \<in> set h" by (cases xs2) (auto simp: prefix_Cons)
    with "3.prems" show ?thesis by simp
  qed
qed simp_all

section \<open>Locating the section\<close>

lemma sublist_py_strip_self: "sublist (py_strip s) s"
proof -
  have "sublist (dropWhile is_space (rev (dropWhile is_space s))) (rev (dropWhile is_space s))"
    by (rule sublist_dropWhile)
  then have "sublist (py_strip s) (dropWhile is_space s)"
    by (simp add: py_strip_def sublist_rev_left)
  then show ?thesis
    using sublist_dropWhile sublist_order.order_trans by blast
qed

lemma has_section_header_strip: "has_section_header (py_strip l) = has_section_header l"
proof -
  have "sublist h (py_strip l) = sublist h l" if "h \<in> set section_headers" for h
  proof
    assume "sublist h (py_strip l)"
    then show "sublist h l"
      using sublist_py_strip_self sublist_order.order_trans by blast
  next
    assume "sublist h l"
    then show "sublist h (py_strip l)"
      using that
      by (intro sublist_py_strip) (auto simp: section_headers_def is_space_def code_point_def)
  qed
  then show ?thesis
    by (simp add: has_section_header_def list_ex_iff)
qed

lemma header_phrase_plain: "newline \<notin> set header_phrase" "header_phrase \<noteq> []"
  by (simp_all add: header_phrase_def newline_def)

lemma find_start_skips:
  "\<forall>l\<in>set pre. \<not> sublist header_phrase l \<Longrightarrow> sublist header_phrase h \<Longrightarrow>
   find_start i (pre @ h # rest) = Some (i + length pre + 1)"
  by (induction pre arbitrary: i) simp_all

lemma find_start_found:
  "\<exists>l\<in>set ls. sublist header_phrase l \<Longrightarrow> \<exists>n. find_start i ls = Some n \<and> n \<le> i + length ls"
proof (induction ls arbitrary: i)
  case Nil
  then show ?case by simp
next
  case (Cons l ls)
  show ?case
  proof (cases "sublist header_phrase l")
    case True
    then show ?thesis by simp
  next
    case False
    with Cons.prems have "\<exists>l\<in>set ls. sublist header_phrase l" by simp
    from Cons.IH [OF this, of "Suc i"] False show ?thesis by auto
  qed
qed

lemma find_end_skips:
  "\<forall>l\<in>set mid. \<not> has_section_header l \<Longrightarrow> has_section_header b \<Longrightarrow>
   find_end i (mid @ b # post) = i + length mid"
  by (induction mid arbitrary: i) simp_all

lemma parse_pdf_try_extracted:
  "\<exists>r. parse_pdf_try (Inr pages) fname = Inr r"
proof (cases "sublist header_phrase (all_text_of pages)")
  case False
  then show ?thesis by (simp add: parse_pdf_try_def)
next
  case True
  then have "sublist header_phrase (join_lines (split_lines (all_text_of pages)))"
    by (simp add: join_split_lines)
  then have "\<exists>l\<in>set (split_lines (all_text_of pages)). sublist header_phrase l"
    using header_phrase_plain by (intro sublist_join_lines)
  from find_start_found [OF this, of 0] obtain n
    where "find_start 0 (split_lines (all_text_of pages)) = Some n" by blast
  with True show ?thesis by (simp add: parse_pdf_try_def Let_def)
qed


lemma has_section_header_Nil: "\<not> has_section_header []"
  by (simp add: has_section_header_def section_headers_def)

lemma summary_loop_stops:
  "has_section_header b \<Longrightarrow>
   summary_loop acc (mid @ b # post) fn = summary_loop acc mid fn"
proof (induction mid arbitrary: acc)
  case Nil
  then have "has_section_header (py_strip b)" by (simp add: has_section_header_strip)
  moreover from this have "py_strip b \<noteq> []" using has_section_header_Nil by auto
  ultimately show ?case by simp
next
  case (Cons l mid)
  then show ?case by (simp add: Let_def split: option.splits prod.splits)
qed

lemma summary_of_lines:
  assumes "\<forall>l\<in>set ls. newline \<notin> set l"
  shows "parse_purchase_and_sale_summary_text (join_lines ls) fn = summary_loop [] ls fn"
proof (cases "ls = []")
  case True
  then show ?thesis
    by (simp add: parse_purchase_and_sale_summary_text_def py_strip_def)
next
  case False
  then show ?thesis
    using assms by (simp add: parse_purchase_and_sale_summary_text_def split_join_lines)
qed


section \<open>The example line, evaluated\<close>

lemma binade_less:
  assumes "0 < a"
  shows "a < 2 powi (binade a + 1)"
proof -
  obtain p q where pq: "quotient_of a = (p, q)" by fastforce
  have q: "0 < q" using quotient_of_denom_pos [OF pq] .
  have a: "a = of_int p / of_int q" using quotient_of_div [OF pq] .
  have p: "0 < p" using assms q a by (simp add: zero_less_divide_iff)
  define lp where "lp = floorlog 2 (nat p)"
  define lq where "lq = floorlog 2 (nat q)"
  have bp: "nat p < 2 ^ lp" and bq: "2 ^ (lq - 1) \<le> nat q"
    using floorlog_bounds [of "nat p" 2] floorlog_bounds [of "nat q" 2] p q
    by (simp_all add: lp_def lq_def)
  have lq1: "1 \<le> lq" using q by (simp add: lq_def floorlog_def)
  have "(of_nat (nat p) :: rat) < of_nat (2 ^ lp)"
    using bp by (simp only: of_nat_less_iff)
  then have bp': "of_int p < (2::rat) ^ lp"
    using p by simp
  have "(of_nat (2 ^ (lq - 1)) :: rat) \<le> of_nat (nat q)"
    using bq by (simp only: of_nat_le_iff)
  then have bq': "(2::rat) ^ (lq - 1) \<le> of_int q"
    using q by simp
  have "of_int p / of_int q < (2::rat) ^ lp / 2 ^ (lq - 1)"
    using bp' bq' q p by (intro frac_less) simp_all
  also have "\<dots> = 2 powi int lp / 2 powi int (lq - 1)"
    by (simp only: power_int_of_nat)
  also have "\<dots> = 2 powi (int lp - int (lq - 1))"
    by (rule power_int_diff [symmetric]) simp
  also have "int lp - int (lq - 1) = int lp - int lq + 1"
    using lq1 by simp
  finally have up: "a < 2 powi (int lp - int lq + 1)" by (simp add: a)
  show ?thesis
  proof (cases "2 powi (int lp - int lq) \<le> a")
    case True
    then show ?thesis using up by (simp add: binade_def pq Let_def lp_def lq_def)
  next
    case False
    then show ?thesis by (simp add: binade_def pq Let_def lp_def lq_def)
  qed
qed

lemma power_int_less_imp_less:
  assumes "(2::rat) powi x < 2 powi y"
  shows "x < y"
proof (rule ccontr)
  assume "\<not> x < y"
  then have "(2::rat) powi y \<le> 2 powi x" by (intro power_int_increasing) simp_all
  with assms show False by simp
qed

lemma binade_unique:
  assumes "0 < a" "2 powi e \<le> a" "a < 2 powi (e + 1)"
  shows "binade a = e"
proof -
  have "(2::rat) powi (binade a) < 2 powi (e + 1)"
    using binade_le [OF assms(1)] assms(3) by simp
  then have "binade a < e + 1" by (rule power_int_less_imp_less)
  moreover have "(2::rat) powi e < 2 powi (binade a + 1)"
    using binade_less [OF assms(1)] assms(2) by simp
  then have "e < binade a + 1" by (rule power_int_less_imp_less)
  ultimately show ?thesis by simp
qed

lemma binade_1008: "binade (252 / 25) = 3"
  by (rule binade_unique) (simp_all add: power_int_def)

lemma floor_1008: "\<lfloor>(141863388262170624::rat) / 25\<rfloor> = 5674535530486824"
  by (rule floor_unique) simp_all

lemma float_minus_10_08:
  "to_binary64 True (1008 / 100) = Finite (- (5674535530486825 / 562949953421312))"
  by (simp add: to_binary64_def binade_1008 round_half_even_def Let_def power_int_minus
      floor_1008)

lemma example_match:
  "re_match summary_pattern example_line =
     Some (95, [''2025-09-01'', ''SW'', ''20'', ''0'', ''YES'', ''KXEPLGAME-25SEP14MCIMUN-MCI'',
                ''Kalshi'', ''2025-09-14'', ''-10.08'', ''USD'', ''Manchester City''])"
  by code_simp

lemma example_dates:
  "parse_date (Some ''2025-09-01'') = Some ''2025-09-01T00:00:00''"
  "parse_date (Some ''2025-09-14'') = Some ''2025-09-14T00:00:00''"
  by code_simp+

lemma example_ints: "parse_int (Some ''20'') = 20" "parse_int (Some ''0'') = 0"
  by code_simp+

lemma example_price: "parse_float (Some ''-10.08'') = to_binary64 True (1008 / 100)"
  by (simp add: parse_float_def py_strip_def replace_newline_def sublist_code float_defs
      char_class_defs)

lemma example_tags:
  "extract_tags ''Manchester City'' ''KXEPLGAME-25SEP14MCIMUN-MCI'' = [''EPL'', ''Manchester City'']"
  by code_simp

lemma example_strips:
  "py_strip example_line = example_line" "py_strip ''Manchester City'' = ''Manchester City''"
  by code_simp+

lemma example_no_header: "\<not> has_section_header example_line"
  by code_simp

lemma example_plain: "newline \<notin> set example_line"
  by code_simp

lemma example_nonempty: "example_line \<noteq> []"
  by (simp add: example_line_def)

lemma example_record:
  "summary_loop acc (example_line # ls) fn =
   summary_loop (acc @
     [\<lparr>tradeDate = Some ''2025-09-01T00:00:00'', assetType = Some ''SW'', qtyLong = 20,
       qtyShort = 0, subtype = Some ''YES'', symbol = Some ''KXEPLGAME-25SEP14MCIMUN-MCI'',
       description = Some ''Manchester City'', exchange = ''Kalshi'',
       expDate = Some ''2025-09-14T00:00:00'', tradePrice = to_binary64 True (1008 / 100),
       tradeType = Some ''Closed Position'', commission = Finite 0, exchangeFees = Finite 0,
       nfaFees = Finite 0, totalFees = Finite 0, currency = Some ''USD'', sourceFile = fn,
       tags = [''EPL'', ''Manchester City'']\<rparr>]) ls fn"
  by (simp add: example_strips example_nonempty example_no_header example_match
      summary_record_def example_dates example_ints example_price example_tags falsy_def Let_def)

lemma example_parse:
  "parse_purchase_and_sale_summary_text example_line fn =
     [\<lparr>tradeDate = Some ''2025-09-01T00:00:00'', assetType = Some ''SW'', qtyLong = 20,
       qtyShort = 0, subtype = Some ''YES'', symbol = Some ''KXEPLGAME-25SEP14MCIMUN-MCI'',
       description = Some ''Manchester City'', exchange = ''Kalshi'',
       expDate = Some ''2025-09-14T00:00:00'', tradePrice = to_binary64 True (1008 / 100),
       tradeType = Some ''Closed Position'', commission = Finite 0, exchangeFees = Finite 0,
       nfaFees = Finite 0, totalFees = Finite 0, currency = Some ''USD'', sourceFile = fn,
       tags = [''EPL'', ''Manchester City'']\<rparr>]"
proof -
  have "parse_purchase_and_sale_summary_text example_line fn = summary_loop [] [example_line] fn"
    by (simp only: parse_purchase_and_sale_summary_text_def
        split_lines_single [OF example_plain])
  then show ?thesis
    by (simp only: example_record summary_loop.simps(1) append_Nil)
qed

lemma example_pages_lines:
  "split_lines (all_text_of example_pages) =
     [''Statement''] @ header_phrase # [example_line] @ ''Open Positions'' # [example_line, []]"
  by code_simp

lemma example_pages_facts:
  "\<forall>l\<in>set [''Statement'']. \<not> sublist header_phrase l"
  "\<forall>l\<in>set [example_line]. \<not> has_section_header l"
  "has_section_header ''Open Positions''"
  by code_simp+

lemma single_page:
  "split_lines (all_text_of [Some (header_phrase @ newline # example_line)]) =
     [header_phrase, example_line, []]"
  by code_simp

text \<open>
  Rows of an extracted table with the cells of the example, after a header row: each
  table parser emits the record of its row.
\<close>

lemma example_cells:
  "clean_value (Some ''2025-09-01'') = Some ''2025-09-01''"
  "clean_value (Some ''SW'') = Some ''SW''"
  "clean_value (Some ''20'') = Some ''20''"
  "clean_value (Some ''0'') = Some ''0''"
  "clean_value (Some ''YES'') = Some ''YES''"
  "clean_value (Some ''-10.08'') = Some ''-10.08''"
  "clean_value (Some ''KXEPLGAME-25SEP14MCIMUN-MCI'') = Some ''KXEPLGAME-25SEP14MCIMUN-MCI''"
  "clean_value (Some ''Manchester City'') = Some ''Manchester City''"
  "clean_value None = None"
  by code_simp+

lemma example_monthly_row:
  "parse_monthly_trade_confirmations
     [header,
      [Some ''2025-09-01'', Some ''SW'', Some ''20'', Some ''0'', Some ''YES'', Some ''-10.08'',
       None, Some ''KXEPLGAME-25SEP14MCIMUN-MCI'', Some ''Manchester City'']] fn =
     [\<lparr>tradeDate = Some ''2025-09-01T00:00:00'', assetType = Some ''SW'', qtyLong = 20,
       qtyShort = 0, subtype = Some ''YES'', symbol = Some ''KXEPLGAME-25SEP14MCIMUN-MCI'',
       description = Some ''Manchester City'', exchange = ''Kalshi'',
       expDate = None, tradePrice = to_binary64 True (1008 / 100),
       tradeType = Some ''Trade'', commission = Finite 0, exchangeFees = Finite 0,
       nfaFees = Finite 0, totalFees = Finite 0, currency = Some ''USD'', sourceFile = fn,
       tags = [''EPL'', ''Manchester City'']\<rparr>]"
  by (simp add: parse_monthly_trade_confirmations_def monthly_row_def Let_def example_cells
      example_dates example_ints example_price example_tags falsy_def or_empty_def)

lemma example_summary_row:
  "parse_trade_confirmation_summary
     [header,
      [Some ''2025-09-01'', Some ''SW'', Some ''20'', Some ''0'', Some ''YES'', Some ''-10.08'',
       Some ''KXEPLGAME-25SEP14MCIMUN-MCI'', Some ''Manchester City'']] fn =
     [\<lparr>tradeDate = Some ''2025-09-01T00:00:00'', assetType = Some ''SW'', qtyLong = 20,
       qtyShort = 0, subtype = Some ''YES'', symbol = Some ''KXEPLGAME-25SEP14MCIMUN-MCI'',
       description = Some ''Manchester City'', exchange = ''Kalshi'',
       expDate = None, tradePrice = to_binary64 True (1008 / 100),
       tradeType = Some ''Trade'', commission = Finite 0, exchangeFees = Finite 0,
       nfaFees = Finite 0, totalFees = Finite 0, currency = Some ''USD'', sourceFile = fn,
       tags = [''EPL'', ''Manchester City'']\<rparr>]"
  by (simp add: parse_trade_confirmation_summary_def summary_row_def Let_def example_cells
      example_dates example_ints example_price example_tags falsy_def or_empty_def)

section \<open>The engine driver\<close>

text \<open>
  C1. The driver has no exceptional result. Whatever exception the body of its \<^verbatim>\<open>try\<close>
  raises, among them the one raised while the document is opened and read, the
  result is the failure with the message of the exception, the count 0 and no
  transactions. Once the text is extracted, the body raises nothing.
\<close>

theorem parse_pdf_exception_is_failure:
  "(parse_pdf_try extracted (basename pdf_path) = Inl e \<longrightarrow>
      parse_pdf extracted pdf_path =
        \<lparr>success = False, error = Some (message e), filename = basename pdf_path,
         transactionCount = 0, transactions = []\<rparr>)
   \<and> parse_pdf (Inl e) pdf_path =
        \<lparr>success = False, error = Some (message e), filename = basename pdf_path,
         transactionCount = 0, transactions = []\<rparr>
   \<and> (\<exists>r. parse_pdf_try (Inr pages) (basename pdf_path) = Inr r \<and>
            parse_pdf (Inr pages) pdf_path = r)"
proof -
  obtain r where "parse_pdf_try (Inr pages) (basename pdf_path) = Inr r"
    using parse_pdf_try_extracted by blast
  then show ?thesis
    by (simp add: parse_pdf_def parse_pdf_try_def Let_def)
qed

theorem parse_pdf_exception_is_failure_witness:
  "parse_pdf_try (Inl (PyException ''[Errno 2] No such file or directory'')) (basename ''in/a.pdf'')
     = Inl (PyException ''[Errno 2] No such file or directory'')
   \<and> parse_pdf (Inl (PyException ''[Errno 2] No such file or directory'')) ''in/a.pdf'' =
        \<lparr>success = False, error = Some ''[Errno 2] No such file or directory'',
         filename = ''a.pdf'', transactionCount = 0, transactions = []\<rparr>"
proof -
  have h: "parse_pdf_try (Inl (PyException ''[Errno 2] No such file or directory'')) (basename ''in/a.pdf'')
     = Inl (PyException ''[Errno 2] No such file or directory'')"
    by (simp add: parse_pdf_try_def)
  have b: "basename ''in/a.pdf'' = ''a.pdf''"
    by (simp add: basename_def)
  show ?thesis
    using h b parse_pdf_exception_is_failure
      [of "Inl (PyException ''[Errno 2] No such file or directory'')" "''in/a.pdf''"
          "PyException ''[Errno 2] No such file or directory''"]
    by simp
qed


text \<open>
  C2. When the extracted text does not contain the header phrase, the result is the
  failure with the message that the section was not found.
\<close>

theorem parse_pdf_header_not_found:
  assumes "\<not> sublist header_phrase (all_text_of pages)"
  shows "parse_pdf (Inr pages) pdf_path =
           \<lparr>success = False, error = Some ''Purchase and Sale Summary section not found'',
            filename = basename pdf_path, transactionCount = 0, transactions = []\<rparr>"
  using assms by (simp add: parse_pdf_def parse_pdf_try_def)

theorem parse_pdf_header_not_found_witness:
  "\<not> sublist header_phrase (all_text_of [Some ''Account Summary'', None, Some ''Purchase Summary''])
   \<and> parse_pdf (Inr [Some ''Account Summary'', None, Some ''Purchase Summary'']) ''a.pdf'' =
           \<lparr>success = False, error = Some ''Purchase and Sale Summary section not found'',
            filename = ''a.pdf'', transactionCount = 0, transactions = []\<rparr>"
proof -
  have h: "\<not> sublist header_phrase (all_text_of [Some ''Account Summary'', None, Some ''Purchase Summary''])"
    by (simp add: header_phrase_def all_text_of_def sublist_code)
  have b: "basename ''a.pdf'' = ''a.pdf''"
    by (simp add: basename_def)
  show ?thesis
    using h b parse_pdf_header_not_found [OF h, of "''a.pdf''"] by simp
qed

text \<open>
  C9. When the first line with the header phrase is followed, after the lines \<open>mid\<close>,
  by a first line \<open>b\<close> with the header of a following section, the section is \<open>mid\<close>:
  the driver parses the lines \<open>mid\<close> and nothing else, and the parser itself stops at
  \<open>b\<close> as well.
\<close>

theorem section_stops_at_boundary:
  assumes "split_lines (all_text_of pages) = pre @ h # mid @ b # post"
    and "\<forall>l\<in>set pre. \<not> sublist header_phrase l" and "sublist header_phrase h"
    and "\<forall>l\<in>set mid. \<not> has_section_header l" and "has_section_header b"
  shows "section_lines_of (Suc (length pre)) (split_lines (all_text_of pages)) = mid
    \<and> parse_pdf (Inr pages) pdf_path =
        \<lparr>success = True, error = None, filename = basename pdf_path,
         transactionCount =
           length (parse_purchase_and_sale_summary_text (join_lines mid) (basename pdf_path)),
         transactions =
           parse_purchase_and_sale_summary_text (join_lines mid) (basename pdf_path)\<rparr>
    \<and> parse_purchase_and_sale_summary_text (join_lines (mid @ b # post)) fn =
        parse_purchase_and_sale_summary_text (join_lines mid) fn"
proof -
  let ?lines = "split_lines (all_text_of pages)"
  have start: "find_start 0 ?lines = Some (Suc (length pre))"
    using find_start_skips [OF assms(2,3), of 0 "mid @ b # post"] assms(1) by simp
  have rest: "drop (Suc (length pre)) ?lines = mid @ b # post"
    by (simp add: assms(1))
  have sect: "section_lines_of (Suc (length pre)) ?lines = mid"
    using find_end_skips [OF assms(4,5), of "Suc (length pre)" post]
    by (simp add: section_lines_of_def rest Let_def)
  have "h \<in> set ?lines" by (simp add: assms(1))
  then have "sublist h (all_text_of pages)" by (rule line_sublist)
  with assms(3) have found: "sublist header_phrase (all_text_of pages)"
    using sublist_order.order_trans by blast
  have pdf: "parse_pdf (Inr pages) pdf_path =
        \<lparr>success = True, error = None, filename = basename pdf_path,
         transactionCount =
           length (parse_purchase_and_sale_summary_text (join_lines mid) (basename pdf_path)),
         transactions =
           parse_purchase_and_sale_summary_text (join_lines mid) (basename pdf_path)\<rparr>"
    using found start sect by (simp add: parse_pdf_def parse_pdf_try_def Let_def)
  have plain: "\<forall>l\<in>set (mid @ b # post). newline \<notin> set l"
  proof
    fix l assume "l \<in> set (mid @ b # post)"
    then have "l \<in> set ?lines" by (auto simp: assms(1))
    then show "newline \<notin> set l" by (rule lines_no_newline)
  qed
  then have "\<forall>l\<in>set mid. newline \<notin> set l" by simp
  then have "parse_purchase_and_sale_summary_text (join_lines (mid @ b # post)) fn =
        parse_purchase_and_sale_summary_text (join_lines mid) fn"
    using plain assms(5) by (simp only: summary_of_lines summary_loop_stops)
  with sect pdf show ?thesis by simp
qed

text \<open>
  The example statement: of its lines, only the one between the header and
  \<^verbatim>\<open>Open Positions\<close> is parsed.
\<close>

theorem section_stops_at_boundary_witness:
  "split_lines (all_text_of example_pages) =
     [''Statement''] @ header_phrase # [example_line] @ ''Open Positions'' # [example_line, []]
   \<and> \<not> sublist header_phrase ''Statement''
   \<and> sublist header_phrase header_phrase
   \<and> \<not> has_section_header example_line
   \<and> has_section_header ''Open Positions''
   \<and> section_lines_of 2 (split_lines (all_text_of example_pages)) = [example_line]
   \<and> transactionCount (parse_pdf (Inr example_pages) ''a.pdf'') = 1
   \<and> transactions (parse_pdf (Inr example_pages) ''a.pdf'') =
       parse_purchase_and_sale_summary_text example_line ''a.pdf''
   \<and> parse_purchase_and_sale_summary_text
         (join_lines ([example_line] @ ''Open Positions'' # [example_line, []])) ''a.pdf'' =
       parse_purchase_and_sale_summary_text example_line ''a.pdf''"
proof -
  have h: "sublist header_phrase header_phrase" by simp
  note t = section_stops_at_boundary
      [OF example_pages_lines example_pages_facts(1) h example_pages_facts(2,3),
       of "''a.pdf''" "''a.pdf''"]
  have b: "basename ''a.pdf'' = ''a.pdf''" by (simp add: basename_def)
  from t have "section_lines_of (Suc (length [''Statement''])) (split_lines (all_text_of example_pages))
      = [example_line]"
    by (rule conjunct1)
  then have c1: "section_lines_of 2 (split_lines (all_text_of example_pages)) = [example_line]"
    by (simp add: numeral_2_eq_2)
  from t have pdf: "parse_pdf (Inr example_pages) ''a.pdf'' =
        \<lparr>success = True, error = None, filename = basename ''a.pdf'',
         transactionCount =
           length (parse_purchase_and_sale_summary_text (join_lines [example_line]) (basename ''a.pdf'')),
         transactions =
           parse_purchase_and_sale_summary_text (join_lines [example_line]) (basename ''a.pdf'')\<rparr>"
    by (rule conjunct1 [OF conjunct2])
  have c2: "transactionCount (parse_pdf (Inr example_pages) ''a.pdf'') = 1"
    by (simp add: pdf b example_parse)
  have c3: "transactions (parse_pdf (Inr example_pages) ''a.pdf'') =
       parse_purchase_and_sale_summary_text example_line ''a.pdf''"
    by (simp add: pdf b)
  from t have "parse_purchase_and_sale_summary_text
         (join_lines ([example_line] @ ''Open Positions'' # [example_line, []])) ''a.pdf'' =
       parse_purchase_and_sale_summary_text (join_lines [example_line]) ''a.pdf''"
    by (rule conjunct2 [OF conjunct2])
  then have c4: "parse_purchase_and_sale_summary_text
         (join_lines ([example_line] @ ''Open Positions'' # [example_line, []])) ''a.pdf'' =
       parse_purchase_and_sale_summary_text example_line ''a.pdf''"
    by (simp only: join_lines.simps(2))
  show ?thesis
    using example_pages_lines example_pages_facts h c1 c2 c3 c4 by simp
qed

section \<open>The example line end to end\<close>

text \<open>
  C4. The parser of the Purchase and Sale Summary turns the example line into exactly
  one record, with the fields below; the trade price is the binary64 number that the
  literal \<^verbatim>\<open>-10.08\<close> denotes. So does the driver on a document that has the line
  after the header of the section.
\<close>

theorem example_line_record:
  "parse_purchase_and_sale_summary_text example_line fn =
     [\<lparr>tradeDate = Some ''2025-09-01T00:00:00'', assetType = Some ''SW'', qtyLong = 20,
       qtyShort = 0, subtype = Some ''YES'', symbol = Some ''KXEPLGAME-25SEP14MCIMUN-MCI'',
       description = Some ''Manchester City'', exchange = ''Kalshi'',
       expDate = Some ''2025-09-14T00:00:00'',
       tradePrice = Finite (- (5674535530486825 / 562949953421312)),
       tradeType = Some ''Closed Position'', commission = Finite 0, exchangeFees = Finite 0,
       nfaFees = Finite 0, totalFees = Finite 0, currency = Some ''USD'', sourceFile = fn,
       tags = [''EPL'', ''Manchester City'']\<rparr>]
   \<and> py_float ''-10.08'' = Some (Finite (- (5674535530486825 / 562949953421312)))
   \<and> parse_pdf (Inr [Some (header_phrase @ newline # example_line)]) pdf_path =
       \<lparr>success = True, error = None, filename = basename pdf_path, transactionCount = 1,
        transactions = parse_purchase_and_sale_summary_text example_line (basename pdf_path)\<rparr>"
proof -
  have price: "py_float ''-10.08'' = Some (Finite (- (5674535530486825 / 562949953421312)))"
    using float_minus_10_08 by (simp add: float_defs char_class_defs)
  have found: "sublist header_phrase (all_text_of [Some (header_phrase @ newline # example_line)])"
    by (simp add: all_text_of_def)
  have start: "find_start 0 [header_phrase, example_line, []] = Some 1"
    by simp
  have sect: "section_lines_of (Suc 0) [header_phrase, example_line, []] = [example_line, []]"
    using example_no_header has_section_header_Nil by (simp add: section_lines_of_def)
  have "parse_purchase_and_sale_summary_text (join_lines [example_line, []]) (basename pdf_path)
        = summary_loop [] [example_line, []] (basename pdf_path)"
    using example_plain by (intro summary_of_lines) simp
  also have "\<dots> = parse_purchase_and_sale_summary_text example_line (basename pdf_path)"
    by (simp only: example_record example_parse) (simp add: py_strip_def)
  finally have sec: "parse_purchase_and_sale_summary_text (join_lines [example_line, []])
      (basename pdf_path) = parse_purchase_and_sale_summary_text example_line (basename pdf_path)" .
  have "parse_pdf (Inr [Some (header_phrase @ newline # example_line)]) pdf_path =
       \<lparr>success = True, error = None, filename = basename pdf_path, transactionCount = 1,
        transactions = parse_purchase_and_sale_summary_text example_line (basename pdf_path)\<rparr>"
    using sec
    by (simp add: parse_pdf_def parse_pdf_try_def Let_def found single_page sect
        example_parse)
  then show ?thesis
    using price example_parse [of fn] float_minus_10_08 by simp
qed

section \<open>Mandatory fields\<close>

lemma rows_loop_map_filter:
  "rows_loop f acc rows fn = acc @ List.map_filter (\<lambda>row. f row fn) rows"
  by (induction rows arbitrary: acc) (simp_all add: map_filter_simps split: option.splits)

lemma text_loop_map_filter:
  "text_loop acc ls fn = acc @ List.map_filter (\<lambda>l. text_line l fn) ls"
  by (induction ls arbitrary: acc) (simp_all add: map_filter_simps split: option.splits)

lemma not_falsy: "\<not> falsy x \<longleftrightarrow> (\<exists>s. x = Some s \<and> s \<noteq> [])"
  by (cases x) (auto simp: falsy_def)

lemma monthly_row_Some:
  assumes "monthly_row row fn = Some t"
  shows "8 \<le> length row
    \<and> tradeDate t = parse_date (clean_value (row ! 0))
    \<and> symbol t = clean_value (row ! (if 13 \<le> length row then 5 else 7))
    \<and> \<not> falsy (tradeDate t) \<and> \<not> falsy (symbol t)"
proof (cases "length row < 8")
  case True
  with assms show ?thesis by (simp add: monthly_row_def)
next
  case False
  then have ne: "row \<noteq> []" by auto
  show ?thesis
  proof (cases "13 \<le> length row")
    case True
    with assms False ne show ?thesis
      by (simp add: monthly_row_def Let_def nth_map split: if_splits) auto
  next
    case False
    with assms \<open>\<not> length row < 8\<close> ne show ?thesis
      by (simp add: monthly_row_def Let_def nth_map split: if_splits) auto
  qed
qed

lemma monthly_row_dropped:
  assumes "falsy (parse_date (clean_value (row ! 0))) \<or>
   falsy (clean_value (row ! (if 13 \<le> length row then 5 else 7)))"
  shows "monthly_row row fn = None"
proof (cases "length row < 8")
  case True
  then show ?thesis by (simp add: monthly_row_def)
next
  case False
  then have ne: "row \<noteq> []" by auto
  show ?thesis
  proof (cases "13 \<le> length row")
    case True
    with assms False ne show ?thesis
      by (simp add: monthly_row_def Let_def) 
  next
    case False
    with assms \<open>\<not> length row < 8\<close> ne show ?thesis
      by (simp add: monthly_row_def Let_def)
  qed
qed

lemma summary_row_Some:
  assumes "summary_row row fn = Some t"
  shows "8 \<le> length row
    \<and> tradeDate t = parse_date (clean_value (row ! 0))
    \<and> symbol t = clean_value (row ! (if 10 \<le> length row then 7 else 6))
    \<and> \<not> falsy (tradeDate t) \<and> \<not> falsy (symbol t)"
proof (cases "length row < 8")
  case True
  with assms show ?thesis by (simp add: summary_row_def)
next
  case False
  then have ne: "row \<noteq> []" by auto
  consider "17 \<le> length row" | "10 \<le> length row" "\<not> 17 \<le> length row" | "\<not> 10 \<le> length row"
    by linarith
  then show ?thesis
  proof cases
    case 1
    with assms False ne show ?thesis
      by (simp add: summary_row_def Let_def split: if_splits) auto
  next
    case 2
    with assms False ne show ?thesis
      by (simp add: summary_row_def Let_def split: if_splits) auto
  next
    case 3
    with assms False ne show ?thesis
      by (simp add: summary_row_def Let_def split: if_splits) auto
  qed
qed

lemma summary_row_dropped:
  assumes "falsy (parse_date (clean_value (row ! 0))) \<or>
   falsy (clean_value (row ! (if 10 \<le> length row then 7 else 6)))"
  shows "summary_row row fn = None"
proof (cases "length row < 8")
  case True
  then show ?thesis by (simp add: summary_row_def)
next
  case False
  then have ne: "row \<noteq> []" by auto
  consider "17 \<le> length row" | "10 \<le> length row" "\<not> 17 \<le> length row" | "\<not> 10 \<le> length row"
    by linarith
  then show ?thesis
  proof cases
    case 1
    with assms False ne show ?thesis by (simp add: summary_row_def Let_def)
  next
    case 2
    with assms False ne show ?thesis by (simp add: summary_row_def Let_def)
  next
    case 3
    with assms False ne show ?thesis by (simp add: summary_row_def Let_def)
  qed
qed

lemma text_record_mandatory:
  assumes "text_record g fn = Some t"
  shows "\<not> falsy (tradeDate t) \<and> \<not> falsy (symbol t)"
proof -
  from assms have "\<not> (falsy (parse_date (Some (g ! 0))) \<or> g ! 5 = [])"
    by (simp add: text_record_def Let_def split: if_splits)
  moreover from assms this have "tradeDate t = parse_date (Some (g ! 0))" "symbol t = Some (g ! 5)"
    by (auto simp add: text_record_def Let_def split: if_splits)
  ultimately show ?thesis by (simp add: falsy_def)
qed

lemma text_record_dropped:
  "falsy (parse_date (Some (g ! 0))) \<Longrightarrow> text_record g fn = None"
  by (simp add: text_record_def Let_def)


lemma summary_record_dropped:
  "falsy (parse_date (Some (g ! 0))) \<Longrightarrow> summary_record g fn = None"
  by (simp add: summary_record_def Let_def)

lemma summary_record_mandatory:
  assumes "summary_record g fn = Some t"
  shows "\<not> falsy (tradeDate t) \<and> \<not> falsy (symbol t)"
  using assms
  by (simp add: summary_record_def Let_def falsy_def split: if_splits) auto

lemma summary_step:
  "summary_loop acc (l # ls) fn = acc \<or> summary_loop acc (l # ls) fn = summary_loop acc ls fn
   \<or> (\<exists>t. \<not> falsy (tradeDate t) \<and> \<not> falsy (symbol t) \<and>
          summary_loop acc (l # ls) fn = summary_loop (acc @ [t]) ls fn)"
proof (cases "re_match summary_pattern (py_strip l)")
  case None
  then show ?thesis by (simp add: Let_def)
next
  case (Some eg)
  obtain e g where eg: "eg = (e, g)" by (cases eg)
  show ?thesis
  proof (cases "summary_record g fn")
    case None
    with Some eg show ?thesis by (simp add: Let_def)
  next
    case (Some t)
    then have "\<not> falsy (tradeDate t) \<and> \<not> falsy (symbol t)"
      by (rule summary_record_mandatory)
    moreover have "summary_loop acc (l # ls) fn = acc
      \<or> summary_loop acc (l # ls) fn = summary_loop acc ls fn
      \<or> summary_loop acc (l # ls) fn = summary_loop (acc @ [t]) ls fn"
      using Some \<open>re_match summary_pattern (py_strip l) = Some eg\<close> eg by (simp add: Let_def)
    ultimately show ?thesis by blast
  qed
qed

lemma summary_loop_mandatory:
  assumes "\<forall>t\<in>set acc. \<not> falsy (tradeDate t) \<and> \<not> falsy (symbol t)"
  shows "\<forall>t\<in>set (summary_loop acc ls fn). \<not> falsy (tradeDate t) \<and> \<not> falsy (symbol t)"
  using assms
proof (induction ls arbitrary: acc)
  case Nil
  then show ?case by simp
next
  case (Cons l ls)
  consider "summary_loop acc (l # ls) fn = acc"
    | "summary_loop acc (l # ls) fn = summary_loop acc ls fn"
    | t where "\<not> falsy (tradeDate t) \<and> \<not> falsy (symbol t)"
        "summary_loop acc (l # ls) fn = summary_loop (acc @ [t]) ls fn"
    using summary_step [of acc l ls fn] by blast
  then show ?case
  proof cases
    case 1
    then show ?thesis using Cons.prems by (simp only:)
  next
    case 2
    then show ?thesis using Cons.IH [OF Cons.prems] by (simp only:)
  next
    case 3
    have "\<forall>t\<in>set (acc @ [t]). \<not> falsy (tradeDate t) \<and> \<not> falsy (symbol t)"
      using Cons.prems 3(1) by simp
    from Cons.IH [OF this] 3(2) show ?thesis by (simp only:)
  qed
qed

lemma in_map_filter: "y \<in> set (List.map_filter f xs) \<longleftrightarrow> (\<exists>x\<in>set xs. f x = Some y)"
  by (induction xs) (auto split: option.splits)

lemma map_filter_append:
  "List.map_filter f (xs @ ys) = List.map_filter f xs @ List.map_filter f ys"
  by (induction xs) (auto split: option.splits)

lemma text_line_mandatory:
  assumes "text_line l fn = Some t"
  shows "\<not> falsy (tradeDate t) \<and> \<not> falsy (symbol t)"
proof -
  from assms obtain g where "text_record g fn = Some t"
    by (auto simp: text_line_def Let_def split: if_splits option.splits)
  then show ?thesis by (rule text_record_mandatory)
qed

lemma monthly_mandatory:
  assumes "t \<in> set (parse_monthly_trade_confirmations table fn)"
  shows "\<not> falsy (tradeDate t) \<and> \<not> falsy (symbol t)"
proof -
  from assms obtain row where "monthly_row row fn = Some t"
    by (auto simp: parse_monthly_trade_confirmations_def rows_loop_map_filter in_map_filter
        split: if_splits)
  then show ?thesis using monthly_row_Some by blast
qed

lemma summary_table_mandatory:
  assumes "t \<in> set (parse_trade_confirmation_summary table fn)"
  shows "\<not> falsy (tradeDate t) \<and> \<not> falsy (symbol t)"
proof -
  from assms obtain row where "summary_row row fn = Some t"
    by (auto simp: parse_trade_confirmation_summary_def rows_loop_map_filter in_map_filter
        split: if_splits)
  then show ?thesis using summary_row_Some by blast
qed

lemma text_mandatory:
  assumes "t \<in> set (parse_text_transactions text fn)"
  shows "\<not> falsy (tradeDate t) \<and> \<not> falsy (symbol t)"
proof -
  from assms obtain l where "text_line l fn = Some t"
    by (auto simp: parse_text_transactions_def text_loop_map_filter in_map_filter)
  then show ?thesis by (rule text_line_mandatory)
qed

lemma summary_text_mandatory:
  assumes "t \<in> set (parse_purchase_and_sale_summary_text text fn)"
  shows "\<not> falsy (tradeDate t) \<and> \<not> falsy (symbol t)"
  using assms summary_loop_mandatory [of "[]" "split_lines text" fn]
  by (simp add: parse_purchase_and_sale_summary_text_def)

lemma monthly_as_map_filter:
  "parse_monthly_trade_confirmations (header # rows) fn =
     List.map_filter (\<lambda>row. monthly_row row fn) rows"
  by (cases rows) (simp_all add: parse_monthly_trade_confirmations_def rows_loop_map_filter)

lemma summary_table_as_map_filter:
  "parse_trade_confirmation_summary (header # rows) fn =
     List.map_filter (\<lambda>row. summary_row row fn) rows"
  by (cases rows) (simp_all add: parse_trade_confirmation_summary_def rows_loop_map_filter)

lemma text_as_map_filter:
  "parse_text_transactions text fn = List.map_filter (\<lambda>l. text_line l fn) (split_lines text)"
  by (simp add: parse_text_transactions_def text_loop_map_filter)

lemma text_line_dropped:
  assumes "re_match text_pattern (py_strip l) = Some (e, g)" "falsy (parse_date (Some (g ! 0)))"
  shows "text_line l fn = None"
  using assms by (simp add: text_line_def Let_def text_record_dropped)

lemma summary_line_dropped:
  assumes "re_match summary_pattern (py_strip l) = Some (e, g)"
    "falsy (parse_date (Some (g ! 0)))" "\<not> has_section_header l"
  shows "summary_loop acc (l # ls) fn = summary_loop acc ls fn"
  using assms by (simp add: Let_def summary_record_dropped has_section_header_strip)

lemma unresolved_match:
  "re_match summary_pattern (py_strip unresolved_date_line) =
     Some (95, [''2025-02-30'', ''SW'', ''20'', ''0'', ''YES'', ''KXEPLGAME-25SEP14MCIMUN-MCI'',
                ''Kalshi'', ''2025-09-14'', ''-10.08'', ''USD'', ''Manchester City''])"
  by code_simp

lemma unresolved_facts:
  "falsy (parse_date (Some ''2025-02-30''))"
  "\<not> has_section_header unresolved_date_line"
  "newline \<notin> set unresolved_date_line"
  by code_simp+

text \<open>
  C3. Every record that one of the four parsers emits has a trade date that is present
  and a symbol that is not empty. The parsers without a stop rule give the records of
  their rows or lines one by one, in order; a row whose date or symbol cell does not
  resolve gives no record, and so does a line of the grammar whose date does not
  resolve, the parser going on with the next line.
\<close>

theorem mandatory_fields:
  "(t \<in> set (parse_monthly_trade_confirmations table fn)
      \<or> t \<in> set (parse_trade_confirmation_summary table fn)
      \<or> t \<in> set (parse_text_transactions text fn)
      \<or> t \<in> set (parse_purchase_and_sale_summary_text text fn)
     \<longrightarrow> (\<exists>d. tradeDate t = Some d \<and> d \<noteq> []) \<and> (\<exists>s. symbol t = Some s \<and> s \<noteq> []))
   \<and> parse_monthly_trade_confirmations (header # rows) fn =
       List.map_filter (\<lambda>row. monthly_row row fn) rows
   \<and> parse_trade_confirmation_summary (header # rows) fn =
       List.map_filter (\<lambda>row. summary_row row fn) rows
   \<and> parse_text_transactions text fn =
       List.map_filter (\<lambda>l. text_line l fn) (split_lines text)
   \<and> (falsy (parse_date (clean_value (row ! 0)))
        \<or> falsy (clean_value (row ! (if 13 \<le> length row then 5 else 7)))
      \<longrightarrow> monthly_row row fn = None)
   \<and> (falsy (parse_date (clean_value (row ! 0)))
        \<or> falsy (clean_value (row ! (if 10 \<le> length row then 7 else 6)))
      \<longrightarrow> summary_row row fn = None)
   \<and> (re_match text_pattern (py_strip l) = Some (e, g) \<and> falsy (parse_date (Some (g ! 0)))
      \<longrightarrow> text_line l fn = None)
   \<and> (re_match summary_pattern (py_strip l) = Some (e, g) \<and> falsy (parse_date (Some (g ! 0)))
        \<and> \<not> has_section_header l
      \<longrightarrow> summary_loop acc (l # ls) fn = summary_loop acc ls fn)"
proof -
  have inv: "(\<exists>d. tradeDate t = Some d \<and> d \<noteq> []) \<and> (\<exists>s. symbol t = Some s \<and> s \<noteq> [])"
    if "t \<in> set (parse_monthly_trade_confirmations table fn)
      \<or> t \<in> set (parse_trade_confirmation_summary table fn)
      \<or> t \<in> set (parse_text_transactions text fn)
      \<or> t \<in> set (parse_purchase_and_sale_summary_text text fn)"
  proof -
    from that have "\<not> falsy (tradeDate t) \<and> \<not> falsy (symbol t)"
      using monthly_mandatory summary_table_mandatory text_mandatory summary_text_mandatory
      by blast
    then show ?thesis by (simp add: not_falsy)
  qed
  show ?thesis
    apply (intro conjI impI)
    subgoal using inv by blast
    subgoal using inv by blast
    subgoal by (rule monthly_as_map_filter)
    subgoal by (rule summary_table_as_map_filter)
    subgoal by (rule text_as_map_filter)
    subgoal by (rule monthly_row_dropped)
    subgoal by (rule summary_row_dropped)
    subgoal using text_line_dropped by blast
    subgoal using summary_line_dropped by blast
    done
qed

text \<open>
  The example line gives a record with both fields; the line with the date
  \<^verbatim>\<open>2025-02-30\<close> before it is dropped and leaves that record.
\<close>

theorem mandatory_fields_witness:
  "parse_purchase_and_sale_summary_text example_line ''a.pdf'' \<noteq> []
   \<and> (\<exists>d. tradeDate (hd (parse_purchase_and_sale_summary_text example_line ''a.pdf'')) = Some d
         \<and> d \<noteq> [])
   \<and> (\<exists>s. symbol (hd (parse_purchase_and_sale_summary_text example_line ''a.pdf'')) = Some s
         \<and> s \<noteq> [])
   \<and> re_match summary_pattern (py_strip unresolved_date_line) =
        Some (95, [''2025-02-30'', ''SW'', ''20'', ''0'', ''YES'', ''KXEPLGAME-25SEP14MCIMUN-MCI'',
                  ''Kalshi'', ''2025-09-14'', ''-10.08'', ''USD'', ''Manchester City''])
   \<and> falsy (parse_date (Some ''2025-02-30''))
   \<and> \<not> has_section_header unresolved_date_line
   \<and> parse_purchase_and_sale_summary_text
         (join_lines [unresolved_date_line, example_line]) ''a.pdf'' =
       parse_purchase_and_sale_summary_text example_line ''a.pdf''"
proof -
  let ?g = "[''2025-02-30'', ''SW'', ''20'', ''0'', ''YES'', ''KXEPLGAME-25SEP14MCIMUN-MCI'',
             ''Kalshi'', ''2025-09-14'', ''-10.08'', ''USD'', ''Manchester City'']"
  have a: "parse_purchase_and_sale_summary_text example_line ''a.pdf'' \<noteq> []"
    by (simp add: example_parse)
  have "hd (parse_purchase_and_sale_summary_text example_line ''a.pdf'')
      \<in> set (parse_purchase_and_sale_summary_text example_line ''a.pdf'')"
    using a by simp
  then have b:
    "\<exists>d. tradeDate (hd (parse_purchase_and_sale_summary_text example_line ''a.pdf'')) = Some d
       \<and> d \<noteq> []"
    "\<exists>s. symbol (hd (parse_purchase_and_sale_summary_text example_line ''a.pdf'')) = Some s
       \<and> s \<noteq> []"
    using mandatory_fields
      [of "hd (parse_purchase_and_sale_summary_text example_line ''a.pdf'')" "[]" "''a.pdf''"
          example_line]
    by blast+
  have d: "falsy (parse_date (Some (?g ! 0)))"
    using unresolved_facts(1) by simp
  have "summary_loop [] (unresolved_date_line # [example_line]) ''a.pdf'' =
        summary_loop [] [example_line] ''a.pdf''"
    using mandatory_fields [of _ _ "''a.pdf''" _ _ _ _ unresolved_date_line 95 ?g "[]" "[example_line]"]
      unresolved_match d unresolved_facts(2)
    by blast
  moreover have "parse_purchase_and_sale_summary_text
         (join_lines [unresolved_date_line, example_line]) ''a.pdf'' =
       summary_loop [] [unresolved_date_line, example_line] ''a.pdf''"
    using unresolved_facts(3) example_plain by (intro summary_of_lines) simp
  moreover have "parse_purchase_and_sale_summary_text example_line ''a.pdf'' =
       summary_loop [] [example_line] ''a.pdf''"
    using summary_of_lines [of "[example_line]" "''a.pdf''"] example_plain
    by (simp del: summary_loop.simps)
  ultimately have c: "parse_purchase_and_sale_summary_text
         (join_lines [unresolved_date_line, example_line]) ''a.pdf'' =
       parse_purchase_and_sale_summary_text example_line ''a.pdf''"
    by (simp only:)
  show ?thesis
    using a b unresolved_match unresolved_facts(1,2) c by blast
qed

section \<open>Independence of lines\<close>

lemma py_strip_Nil: "py_strip [] = []"
  by (simp add: py_strip_def)

lemma text_line_Nil: "text_line [] fn = None"
  by (simp add: text_line_def py_strip_Nil)

lemma text_of_lines:
  assumes "\<forall>l\<in>set ls. newline \<notin> set l"
  shows "parse_text_transactions (join_lines ls) fn = List.map_filter (\<lambda>l. text_line l fn) ls"
proof (cases "ls = []")
  case True
  then show ?thesis by (simp add: text_as_map_filter text_line_Nil)
next
  case False
  then show ?thesis using assms by (simp add: text_as_map_filter split_join_lines)
qed

lemma text_of_line:
  assumes "newline \<notin> set l"
  shows "parse_text_transactions l fn = List.map_filter (\<lambda>l. text_line l fn) [l]"
  using text_of_lines [of "[l]" fn] assms by simp

lemma text_concat:
  assumes "\<forall>l\<in>set ls. newline \<notin> set l"
  shows "concat (map (\<lambda>l. parse_text_transactions l fn) ls) =
         List.map_filter (\<lambda>l. text_line l fn) ls"
  using assms by (induction ls) (simp_all add: text_of_line split: option.splits)

lemma summary_of_line:
  assumes "newline \<notin> set l"
  shows "parse_purchase_and_sale_summary_text l fn = summary_loop [] [l] fn"
  using summary_of_lines [of "[l]" fn] assms by (simp del: summary_loop.simps)

lemma summary_good_line:
  assumes "summary_loop [] [l] fn = [t]"
  shows "summary_loop acc (l # rest) fn = summary_loop (acc @ [t]) rest fn"
proof -
  from assms have a: "py_strip l \<noteq> []" "\<not> has_section_header (py_strip l)"
    by (auto simp: Let_def split: if_splits)
  with assms obtain e g where m: "re_match summary_pattern (py_strip l) = Some (e, g)"
    by (cases "re_match summary_pattern (py_strip l)") (auto simp: Let_def)
  with assms a have "summary_record g fn = Some t"
    by (cases "summary_record g fn") (simp_all add: Let_def)
  with a m show ?thesis by (simp add: Let_def)
qed

lemma summary_bad_line:
  assumes "re_match summary_pattern (py_strip bad) = None" "\<not> has_section_header bad"
  shows "summary_loop acc (bad # rest) fn = summary_loop acc rest fn"
  using assms by (simp add: Let_def has_section_header_strip)

lemma summary_good_lines:
  assumes "\<forall>l\<in>set xs. length (summary_loop [] [l] fn) = 1"
  shows "summary_loop acc (xs @ ys) fn =
         summary_loop (acc @ concat (map (\<lambda>l. summary_loop [] [l] fn) xs)) ys fn"
  using assms
proof (induction xs arbitrary: acc)
  case Nil
  then show ?case by (simp del: summary_loop.simps)
next
  case (Cons l xs)
  then have "length (summary_loop [] [l] fn) = 1" by (simp del: summary_loop.simps)
  then obtain t where t: "summary_loop [] [l] fn = [t]"
    by (cases "summary_loop [] [l] fn") (simp_all del: summary_loop.simps)
  have "summary_loop acc ((l # xs) @ ys) fn = summary_loop (acc @ [t]) (xs @ ys) fn"
    by (simp only: append_Cons summary_good_line [OF t])
  also have "\<dots> = summary_loop ((acc @ [t]) @ concat (map (\<lambda>l. summary_loop [] [l] fn) xs)) ys fn"
    using Cons.prems by (intro Cons.IH) simp
  finally show ?case by (simp add: t del: summary_loop.simps)
qed

lemma length_concat_singletons:
  "\<forall>x\<in>set xs. length (f x) = 1 \<Longrightarrow> length (concat (map f xs)) = length xs"
  by (induction xs) simp_all


lemma example_text_match:
  "re_match text_pattern example_line =
     Some (95, [''2025-09-01'', ''SW'', ''20'', ''0'', ''YES'', ''KXEPLGAME-25SEP14MCIMUN-MCI'',
                ''Kalshi'', ''2025-09-14'', ''-10.08'', ''USD'', ''Manchester'', ''City''])"
  by code_simp

lemma example_text_length: "length (parse_text_transactions example_line fn) = 1"
proof -
  have "text_line example_line fn \<noteq> None"
    by (simp add: text_line_def example_strips example_nonempty example_text_match
        text_record_def Let_def example_dates falsy_def)
  then show ?thesis
    using example_plain by (auto simp: text_of_line)
qed

lemma not_a_line:
  "re_match text_pattern (py_strip ''n/a'') = None"
  "re_match summary_pattern (py_strip ''n/a'') = None"
  "\<not> has_section_header ''n/a''"
  "newline \<notin> set ''n/a''"
  by code_simp+

lemma open_positions_line:
  "re_match summary_pattern (py_strip ''Open Positions'') = None"
  "py_strip ''Open Positions'' = ''Open Positions''"
  "newline \<notin> set ''Open Positions''"
  by code_simp+

text \<open>
  C8, as the code has it. Among lines that each give one record, a line that does
  not match the grammar is dropped alone: the records are those of the other lines, in
  their order, and one fewer than the lines. For the parser of the summary this holds
  when the line does not name a following section.
\<close>

theorem malformed_line_dropped_alone:
  assumes "k < length ls" and "\<forall>l\<in>set ls. newline \<notin> set l" and "newline \<notin> set bad"
  shows "((\<forall>l\<in>set ls. length (parse_text_transactions l fn) = 1)
          \<and> re_match text_pattern (py_strip bad) = None
        \<longrightarrow> parse_text_transactions (join_lines (ls[k := bad])) fn =
              concat (map (\<lambda>l. parse_text_transactions l fn) (take k ls @ drop (Suc k) ls))
            \<and> length (parse_text_transactions (join_lines (ls[k := bad])) fn) = length ls - 1)
    \<and> ((\<forall>l\<in>set ls. length (parse_purchase_and_sale_summary_text l fn) = 1)
          \<and> re_match summary_pattern (py_strip bad) = None \<and> \<not> has_section_header bad
        \<longrightarrow> parse_purchase_and_sale_summary_text (join_lines (ls[k := bad])) fn =
              concat (map (\<lambda>l. parse_purchase_and_sale_summary_text l fn)
                        (take k ls @ drop (Suc k) ls))
            \<and> length (parse_purchase_and_sale_summary_text (join_lines (ls[k := bad])) fn) =
              length ls - 1)"
proof -
  let ?others = "take k ls @ drop (Suc k) ls"
  have upd: "ls[k := bad] = take k ls @ bad # drop (Suc k) ls"
    using assms(1) by (rule upd_conv_take_nth_drop)
  have plain: "\<forall>l\<in>set (ls[k := bad]). newline \<notin> set l"
    using assms(2,3) by (auto simp: upd dest: in_set_takeD in_set_dropD)
  have others: "set ?others \<subseteq> set ls"
    by (auto dest: in_set_takeD in_set_dropD)
  have len: "length ?others = length ls - 1"
    using assms(1) by simp
  have tx: "parse_text_transactions (join_lines (ls[k := bad])) fn =
              concat (map (\<lambda>l. parse_text_transactions l fn) ?others)
            \<and> length (parse_text_transactions (join_lines (ls[k := bad])) fn) = length ls - 1"
    if good: "\<forall>l\<in>set ls. length (parse_text_transactions l fn) = 1"
      and bad: "re_match text_pattern (py_strip bad) = None"
  proof -
    have none: "text_line bad fn = None"
      using bad by (simp add: text_line_def Let_def)
    have "parse_text_transactions (join_lines (ls[k := bad])) fn =
        List.map_filter (\<lambda>l. text_line l fn) (ls[k := bad])"
      by (rule text_of_lines [OF plain])
    also have "\<dots> = List.map_filter (\<lambda>l. text_line l fn) ?others"
      using none by (simp add: upd map_filter_append)
    also have "\<dots> = concat (map (\<lambda>l. parse_text_transactions l fn) ?others)"
      using others assms(2) by (intro text_concat [symmetric]) blast
    finally have eq: "parse_text_transactions (join_lines (ls[k := bad])) fn =
        concat (map (\<lambda>l. parse_text_transactions l fn) ?others)" .
    have "length (concat (map (\<lambda>l. parse_text_transactions l fn) ?others)) = length ?others"
      using others good by (intro length_concat_singletons) blast
    with eq len show ?thesis by simp
  qed
  have sm: "parse_purchase_and_sale_summary_text (join_lines (ls[k := bad])) fn =
              concat (map (\<lambda>l. parse_purchase_and_sale_summary_text l fn) ?others)
            \<and> length (parse_purchase_and_sale_summary_text (join_lines (ls[k := bad])) fn) =
              length ls - 1"
    if good: "\<forall>l\<in>set ls. length (parse_purchase_and_sale_summary_text l fn) = 1"
      and bad: "re_match summary_pattern (py_strip bad) = None" "\<not> has_section_header bad"
  proof -
    have single: "parse_purchase_and_sale_summary_text l fn = summary_loop [] [l] fn"
      if "l \<in> set ls" for l
      using that assms(2) by (intro summary_of_line) blast
    have good': "\<forall>l\<in>set ls. length (summary_loop [] [l] fn) = 1"
      using good single by (simp del: summary_loop.simps)
    then have g1: "\<forall>l\<in>set (take k ls). length (summary_loop [] [l] fn) = 1"
      and g2: "\<forall>l\<in>set (drop (Suc k) ls). length (summary_loop [] [l] fn) = 1"
      by (auto dest: in_set_takeD in_set_dropD)
    have "parse_purchase_and_sale_summary_text (join_lines (ls[k := bad])) fn =
          summary_loop [] (take k ls @ bad # drop (Suc k) ls) fn"
      using summary_of_lines [OF plain] by (simp only: upd)
    also have "\<dots> = summary_loop (concat (map (\<lambda>l. summary_loop [] [l] fn) (take k ls)))
          (bad # drop (Suc k) ls) fn"
      using summary_good_lines [OF g1, of "[]"] by (simp del: summary_loop.simps)
    also have "\<dots> = summary_loop (concat (map (\<lambda>l. summary_loop [] [l] fn) (take k ls)))
          (drop (Suc k) ls @ []) fn"
      using summary_bad_line [OF bad] by (simp del: summary_loop.simps)
    also have "\<dots> = concat (map (\<lambda>l. summary_loop [] [l] fn) (take k ls))
          @ concat (map (\<lambda>l. summary_loop [] [l] fn) (drop (Suc k) ls))"
      by (simp only: summary_good_lines [OF g2] summary_loop.simps(1))
    also have "\<dots> = concat (map (\<lambda>l. summary_loop [] [l] fn) ?others)"
      by (simp del: summary_loop.simps)
    also have "\<dots> = concat (map (\<lambda>l. parse_purchase_and_sale_summary_text l fn) ?others)"
      using others single by (intro arg_cong [where f = concat] map_cong) (auto simp del: summary_loop.simps)
    finally have eq: "parse_purchase_and_sale_summary_text (join_lines (ls[k := bad])) fn =
        concat (map (\<lambda>l. parse_purchase_and_sale_summary_text l fn) ?others)" .
    have "length (concat (map (\<lambda>l. parse_purchase_and_sale_summary_text l fn) ?others))
          = length ?others"
      using others good by (intro length_concat_singletons) blast
    with eq len show ?thesis by simp
  qed
  show ?thesis
    using tx sm by blast
qed

theorem malformed_line_dropped_alone_witness:
  "1 < length [example_line, example_line]
   \<and> newline \<notin> set example_line
   \<and> newline \<notin> set ''n/a''
   \<and> length (parse_text_transactions example_line ''a.pdf'') = 1
   \<and> re_match text_pattern (py_strip ''n/a'') = None
   \<and> length (parse_purchase_and_sale_summary_text example_line ''a.pdf'') = 1
   \<and> re_match summary_pattern (py_strip ''n/a'') = None
   \<and> \<not> has_section_header ''n/a''
   \<and> length (parse_text_transactions
         (join_lines ([example_line, example_line][1 := ''n/a''])) ''a.pdf'') = 1
   \<and> parse_purchase_and_sale_summary_text
         (join_lines ([example_line, example_line][1 := ''n/a''])) ''a.pdf'' =
       parse_purchase_and_sale_summary_text example_line ''a.pdf''"
proof -
  have h1: "1 < length [example_line, example_line]" by simp
  have h2: "\<forall>l\<in>set [example_line, example_line]. newline \<notin> set l"
    using example_plain by simp
  have h3: "\<forall>l\<in>set [example_line, example_line]. length (parse_text_transactions l ''a.pdf'') = 1"
    by (simp add: example_text_length)
  have h4: "\<forall>l\<in>set [example_line, example_line].
         length (parse_purchase_and_sale_summary_text l ''a.pdf'') = 1"
    by (simp add: example_parse)
  note t = malformed_line_dropped_alone [OF h1 h2 not_a_line(4), of "''a.pdf''"]
  have c1: "length (parse_text_transactions
         (join_lines ([example_line, example_line][1 := ''n/a''])) ''a.pdf'') = 1"
    using t h3 not_a_line(1) by simp
  have c2: "parse_purchase_and_sale_summary_text
         (join_lines ([example_line, example_line][1 := ''n/a''])) ''a.pdf'' =
       parse_purchase_and_sale_summary_text example_line ''a.pdf''"
    using t h4 not_a_line(2,3) by simp
  have h5: "length (parse_purchase_and_sale_summary_text example_line ''a.pdf'') = 1"
    by (simp add: example_parse)
  show ?thesis
    using h1 example_plain not_a_line(4) example_text_length [of "''a.pdf''"] not_a_line(1) h5
      not_a_line(2,3) c1 c2
    by (intro conjI)
qed

text \<open>
  C8, as stated, fails for the parser of the summary: \<^verbatim>\<open>Open Positions\<close> does not match
  the grammar, and in the place of the first of two lines that each give a record it
  ends the loop, so that no record is left instead of one.
\<close>

theorem header_line_ends_batch:
  "length (parse_purchase_and_sale_summary_text example_line ''a.pdf'') = 1
   \<and> re_match summary_pattern (py_strip ''Open Positions'') = None
   \<and> newline \<notin> set ''Open Positions''
   \<and> parse_purchase_and_sale_summary_text
         (join_lines ([example_line, example_line][0 := ''Open Positions''])) ''a.pdf'' = []
   \<and> length (parse_purchase_and_sale_summary_text
         (join_lines ([example_line, example_line][0 := ''Open Positions''])) ''a.pdf'')
       \<noteq> length [example_line, example_line] - 1"
proof -
  have "\<forall>l\<in>set [''Open Positions'', example_line]. newline \<notin> set l"
    using example_plain open_positions_line(3) by simp
  then have "parse_purchase_and_sale_summary_text
         (join_lines [''Open Positions'', example_line]) ''a.pdf'' =
         summary_loop [] [''Open Positions'', example_line] ''a.pdf''"
    by (rule summary_of_lines)
  also have "\<dots> = []"
    using example_pages_facts(3) by (simp add: open_positions_line(2))
  finally have "parse_purchase_and_sale_summary_text
         (join_lines ([example_line, example_line][0 := ''Open Positions''])) ''a.pdf'' = []"
    by simp
  then show ?thesis
    using open_positions_line(1,3) by (simp add: example_parse)
qed

section \<open>The conversion of dates\<close>

lemma digit_code: "is_digit c \<longleftrightarrow> 48 \<le> code_point c \<and> code_point c \<le> 57"
  by (simp add: is_digit_def Let_def)

lemma char_eq_code: "(x = y) = (code_point x = code_point y)"
  by (simp add: code_point_def)

lemma code_lits:
  "code_point CHR ''0'' = 48" "code_point CHR ''1'' = 49" "code_point CHR ''2'' = 50"
  "code_point CHR ''3'' = 51" "code_point CHR ''9'' = 57" "code_point CHR ''-'' = 45"
  "code_point CHR '' '' = 32" "code_point CHR ''+'' = 43" "code_point CHR ''_'' = 95"
  by (simp_all add: code_point_def)

lemma digits_val_simps:
  "digits_val [a] = digit_val a" "digits_val [a, b] = 10 * digit_val a + digit_val b"
  "digits_val [a, b, c, d] = 1000 * digit_val a + 100 * digit_val b + 10 * digit_val c + digit_val d"
  by (simp_all add: digits_val_def)

lemma run_year:
  "run (Group year_regex) (p, s, g) =
     (case s of
        a # b # c # d # r \<Rightarrow>
          if is_digit a \<and> is_digit b \<and> is_digit c \<and> is_digit d
          then [(p + 4, r, g @ [[a, b, c, d]])] else []
      | _ \<Rightarrow> [])"
  by (auto simp: year_regex_def times_def seq_def eval_nat_numeral split: list.splits)

lemma run_month_one:
  assumes "is_digit a" "1 \<le> digit_val a" "\<not> is_digit b"
  shows "run (Group month_regex) (p, a # b # r, g) = [(p + 1, b # r, g @ [[a]])]"
  using assms
  by (auto simp: month_regex_def seq_def digit_code digit_val_def
      char_eq_code [of _ "CHR ''0''"] char_eq_code [of _ "CHR ''1''"] code_lits)

lemma run_month_two:
  assumes "is_digit a" "is_digit b" "1 \<le> digits_val [a, b]" "digits_val [a, b] \<le> 12"
  shows "run (Group month_regex) (p, a # b # r, g) =
           (p + 2, r, g @ [[a, b]]) # (if a = CHR ''1'' then [(p + 1, b # r, g @ [[a]])] else [])"
  using assms
  by (auto simp: month_regex_def seq_def digit_code digit_val_def digits_val_simps
      char_eq_code [of _ "CHR ''0''"] char_eq_code [of _ "CHR ''1''"] code_lits)

lemma run_day_one:
  assumes "is_digit c" "1 \<le> digit_val c"
  shows "run (Group day_regex) (p, [c], g) = [(p + 1, [], g @ [[c]])]"
  using assms
  by (auto simp: day_regex_def seq_def digit_code digit_val_def
      char_eq_code [of _ "CHR ''0''"] char_eq_code [of _ "CHR ''3''"]
      char_eq_code [of _ "CHR '' ''"] code_lits)

lemma run_day_two:
  assumes "is_digit c" "is_digit e" "1 \<le> digits_val [c, e]" "digits_val [c, e] \<le> 31"
  shows "\<exists>rest. run (Group day_regex) (p, [c, e], g) = (p + 2, [], g @ [[c, e]]) # rest"
  using assms
  by (auto simp: day_regex_def seq_def digit_code digit_val_def digits_val_simps
      char_eq_code [of _ "CHR ''0''"] char_eq_code [of _ "CHR ''3''"]
      char_eq_code [of _ "CHR '' ''"] code_lits)

lemma run_day_space:
  assumes "is_digit e" "1 \<le> digit_val e"
  shows "run (Group day_regex) (p, [CHR '' '', e], g) = [(p + 2, [], g @ [[CHR '' '', e]])]"
  using assms
  by (auto simp: day_regex_def seq_def digit_code digit_val_def
      char_eq_code [of _ "CHR ''0''"] char_eq_code [of _ "CHR ''3''"]
      char_eq_code [of _ "CHR '' ''"] code_lits)

lemma digit_not:
  assumes "is_digit c"
  shows "c \<noteq> CHR ''-''" "c \<noteq> CHR ''+''" "c \<noteq> CHR ''_''" "c \<noteq> CHR '' ''"
    "\<not> is_number_space c" "\<not> is_space c" "c \<noteq> newline"
  using assms
  by (auto simp: digit_code is_number_space_def is_space_def newline_def Let_def
      char_eq_code [of c] code_lits code_point_def)

lemma not_digit_lits: "\<not> is_digit CHR ''-''" "\<not> is_digit CHR '' ''"
  by (simp_all add: digit_code code_lits)

lemma py_int_1:
  "is_digit a \<Longrightarrow> py_int [a] = Some (int (digits_val [a]))"
  by (simp add: py_int_def int_digits_def strip_number_space_def digit_not)

lemma py_int_2:
  "is_digit a \<Longrightarrow> is_digit b \<Longrightarrow> py_int [a, b] = Some (int (digits_val [a, b]))"
  by (simp add: py_int_def int_digits_def strip_number_space_def digit_not)

lemma py_int_4:
  "is_digit a \<Longrightarrow> is_digit b \<Longrightarrow> is_digit c \<Longrightarrow> is_digit d \<Longrightarrow>
   py_int [a, b, c, d] = Some (int (digits_val [a, b, c, d]))"
  by (simp add: py_int_def int_digits_def strip_number_space_def digit_not)

lemma space_is_number_space: "is_number_space CHR '' ''"
  by (simp add: is_number_space_def code_lits Let_def)

lemma py_int_space:
  "is_digit a \<Longrightarrow> py_int [CHR '' '', a] = Some (int (digits_val [a]))"
  by (simp add: py_int_def int_digits_def strip_number_space_def digit_not space_is_number_space)

lemma mem_year:
  assumes "(p', s', g') \<in> set (run (Group year_regex) (p, s, g))"
  shows "\<exists>a b c d. s = a # b # c # d # s' \<and> is_digit a \<and> is_digit b \<and> is_digit c \<and> is_digit d
           \<and> p' = p + 4 \<and> g' = g @ [[a, b, c, d]]"
  using assms unfolding run_year by (auto split: list.splits if_splits)

lemma mem_dash:
  assumes "(p', s', g') \<in> set (run (Atom (Ch CHR ''-'')) (p, s, g))"
  shows "s = CHR ''-'' # s' \<and> p' = p + 1 \<and> g' = g"
  using assms by (auto split: list.splits if_splits)

lemma digit_lits: "is_digit CHR ''0''" "is_digit CHR ''1''" "is_digit CHR ''3''"
  by (simp_all add: digit_code code_lits)

lemma range_digit:
  "in_class (Range CHR ''0'' CHR ''1'') c \<Longrightarrow> is_digit c"
  "in_class (Range CHR ''0'' CHR ''2'') c \<Longrightarrow> is_digit c"
  "in_class (Range CHR ''1'' CHR ''2'') c \<Longrightarrow> is_digit c"
  "in_class (Range CHR ''1'' CHR ''9'') c \<Longrightarrow> is_digit c"
  by (simp_all add: digit_code code_lits)

lemma run_month_cases:
  "run (Group month_regex) (p, s, g) =
     (case s of
        [] \<Rightarrow> []
      | [a] \<Rightarrow> if in_class (Range CHR ''1'' CHR ''9'') a then [(p + 1, [], g @ [[a]])] else []
      | a # b # r \<Rightarrow>
          (if a = CHR ''1'' \<and> in_class (Range CHR ''0'' CHR ''2'') b
           then [(p + 2, r, g @ [[a, b]])] else [])
          @ (if a = CHR ''0'' \<and> in_class (Range CHR ''1'' CHR ''9'') b
             then [(p + 2, r, g @ [[a, b]])] else [])
          @ (if in_class (Range CHR ''1'' CHR ''9'') a then [(p + 1, b # r, g @ [[a]])] else []))"
proof (cases s)
  case Nil
  then show ?thesis by (simp add: month_regex_def seq_def)
next
  case (Cons a r)
  then show ?thesis
    by (cases r) (simp_all add: month_regex_def seq_def del: in_class.simps(7))
qed

lemma run_day_cases:
  "run (Group day_regex) (p, s, g) =
     (case s of
        [] \<Rightarrow> []
      | [a] \<Rightarrow> if in_class (Range CHR ''1'' CHR ''9'') a then [(p + 1, [], g @ [[a]])] else []
      | a # b # r \<Rightarrow>
          (if a = CHR ''3'' \<and> in_class (Range CHR ''0'' CHR ''1'') b
           then [(p + 2, r, g @ [[a, b]])] else [])
          @ (if in_class (Range CHR ''1'' CHR ''2'') a \<and> is_digit b
             then [(p + 2, r, g @ [[a, b]])] else [])
          @ (if a = CHR ''0'' \<and> in_class (Range CHR ''1'' CHR ''9'') b
             then [(p + 2, r, g @ [[a, b]])] else [])
          @ (if in_class (Range CHR ''1'' CHR ''9'') a then [(p + 1, b # r, g @ [[a]])] else [])
          @ (if a = CHR '' '' \<and> in_class (Range CHR ''1'' CHR ''9'') b
             then [(p + 2, r, g @ [[a, b]])] else []))"
proof (cases s)
  case Nil
  then show ?thesis by (simp add: day_regex_def seq_def)
next
  case (Cons a r)
  then show ?thesis
    by (cases r) (simp_all add: day_regex_def seq_def del: in_class.simps(7))
qed

lemma mem_month:
  assumes "(p', s', g') \<in> set (run (Group month_regex) (p, s, g))"
  shows "(\<exists>a. s = a # s' \<and> is_digit a \<and> p' = p + 1 \<and> g' = g @ [[a]])
       \<or> (\<exists>a b. s = a # b # s' \<and> is_digit a \<and> is_digit b \<and> p' = p + 2 \<and> g' = g @ [[a, b]])"
proof (cases s)
  case Nil
  with assms show ?thesis unfolding run_month_cases by simp
next
  case (Cons a r)
  show ?thesis
  proof (cases r)
    case Nil
    with assms Cons show ?thesis unfolding run_month_cases
      by (auto simp del: in_class.simps split: if_splits intro: range_digit digit_lits)
  next
    case (Cons b r')
    with assms \<open>s = a # r\<close> show ?thesis unfolding run_month_cases
      by (auto simp del: in_class.simps split: if_splits intro: range_digit digit_lits)
  qed
qed

lemma mem_day:
  assumes "(p', s', g') \<in> set (run (Group day_regex) (p, s, g))"
  shows "(\<exists>a. s = a # s' \<and> is_digit a \<and> p' = p + 1 \<and> g' = g @ [[a]])
       \<or> (\<exists>a b. s = a # b # s' \<and> is_digit a \<and> is_digit b \<and> p' = p + 2 \<and> g' = g @ [[a, b]])
       \<or> (\<exists>b. s = CHR '' '' # b # s' \<and> is_digit b \<and> p' = p + 2 \<and> g' = g @ [[CHR '' '', b]])"
proof (cases s)
  case Nil
  with assms show ?thesis unfolding run_day_cases by simp
next
  case (Cons a r)
  show ?thesis
  proof (cases r)
    case Nil
    with assms Cons show ?thesis unfolding run_day_cases
      by (auto simp del: in_class.simps split: if_splits intro: range_digit digit_lits)
  next
    case (Cons b r')
    with assms \<open>s = a # r\<close> show ?thesis unfolding run_day_cases
      by (auto simp del: in_class.simps split: if_splits intro: range_digit digit_lits)
  qed
qed

lemma year_textE:
  assumes "year_text y"
  obtains a b c d where "y = [a, b, c, d]" "is_digit a" "is_digit b" "is_digit c" "is_digit d"
proof -
  from assms have "length y = 4" by (simp add: year_text_def)
  then obtain a b c d where "y = [a, b, c, d]"
    by (auto simp: length_Suc_conv eval_nat_numeral)
  with assms that show ?thesis by (simp add: year_text_def)
qed

lemma month_textE:
  assumes "month_text m"
  obtains a where "m = [a]" "is_digit a" | a b where "m = [a, b]" "is_digit a" "is_digit b"
proof -
  from assms consider "length m = 1" | "length m = 2" by (auto simp: month_text_def)
  then show ?thesis
  proof cases
    case 1
    then obtain a where "m = [a]" by (auto simp: length_Suc_conv)
    with assms that(1) show ?thesis by (simp add: month_text_def)
  next
    case 2
    then obtain a b where "m = [a, b]" by (auto simp: length_Suc_conv eval_nat_numeral)
    with assms that(2) show ?thesis by (simp add: month_text_def)
  qed
qed

lemma day_textE:
  assumes "day_text d"
  obtains a where "d = [a]" "is_digit a" | a b where "d = [a, b]" "is_digit a" "is_digit b"
    | b where "d = [CHR '' '', b]" "is_digit b"
proof (cases "month_text d")
  case True
  then show ?thesis using that(1,2) by (elim month_textE) auto
next
  case False
  with assms have "case d of [s, c] \<Rightarrow> s = CHR '' '' \<and> is_digit c | _ \<Rightarrow> False"
    by (simp add: day_text_def)
  then obtain b where "d = [CHR '' '', b]" "is_digit b"
    by (auto split: list.splits)
  then show ?thesis using that(3) by blast
qed

lemma mem_Then:
  "x \<in> set (run (Then a b) st) \<Longrightarrow> \<exists>y. y \<in> set (run a st) \<and> x \<in> set (run b y)"
  by auto

lemma strptime_regex_unfold:
  "strptime_regex =
     Then (Group year_regex) (Then (Atom (Ch CHR ''-''))
       (Then (Group month_regex) (Then (Atom (Ch CHR ''-'')) (Then (Group day_regex) Eps))))"
  by (simp add: strptime_regex_def seq_def)

lemma match_shape:
  assumes "re_match strptime_regex t = Some (e, gs)" "e = length t"
  shows "\<exists>y m d. t = y @ ''-'' @ m @ ''-'' @ d \<and> gs = [y, m, d]
           \<and> year_text y \<and> month_text m \<and> day_text d"
proof -
  from assms(1) obtain s' where "(e, s', gs) \<in> set (run strptime_regex (0, t, []))"
    by (auto simp: re_match_def split: list.splits)
  then have "(e, s', gs) \<in> set (run (Then (Group year_regex) (Then (Atom (Ch CHR ''-''))
      (Then (Group month_regex) (Then (Atom (Ch CHR ''-'')) (Then (Group day_regex) Eps)))))
      (0, t, []))"
    by (simp only: strptime_regex_unfold)
  then obtain st1 where 1: "st1 \<in> set (run (Group year_regex) (0, t, []))"
    and r1: "(e, s', gs) \<in> set (run (Then (Atom (Ch CHR ''-''))
      (Then (Group month_regex) (Then (Atom (Ch CHR ''-'')) (Then (Group day_regex) Eps)))) st1)"
    using mem_Then by blast
  from r1 obtain st2 where 2: "st2 \<in> set (run (Atom (Ch CHR ''-'')) st1)"
    and r2: "(e, s', gs) \<in> set (run (Then (Group month_regex)
      (Then (Atom (Ch CHR ''-'')) (Then (Group day_regex) Eps))) st2)"
    using mem_Then by blast
  from r2 obtain st3 where 3: "st3 \<in> set (run (Group month_regex) st2)"
    and r3: "(e, s', gs) \<in> set (run (Then (Atom (Ch CHR ''-'')) (Then (Group day_regex) Eps)) st3)"
    using mem_Then by blast
  from r3 obtain st4 where 4: "st4 \<in> set (run (Atom (Ch CHR ''-'')) st3)"
    and r4: "(e, s', gs) \<in> set (run (Then (Group day_regex) Eps) st4)"
    using mem_Then by blast
  from mem_Then [OF r4] have 5: "(e, s', gs) \<in> set (run (Group day_regex) st4)"
    by auto
  obtain p1 s1 g1 where st1: "st1 = (p1, s1, g1)" by (cases st1)
  obtain p2 s2 g2 where st2: "st2 = (p2, s2, g2)" by (cases st2)
  obtain p3 s3 g3 where st3: "st3 = (p3, s3, g3)" by (cases st3)
  obtain p4 s4 g4 where st4: "st4 = (p4, s4, g4)" by (cases st4)
  from mem_year [OF 1 [unfolded st1]] obtain a b c d where
    y: "t = a # b # c # d # s1" "is_digit a" "is_digit b" "is_digit c" "is_digit d"
       "p1 = 4" "g1 = [[a, b, c, d]]"
    by auto
  from mem_dash [OF 2 [unfolded st1 st2]] have
    h1: "s1 = CHR ''-'' # s2" "p2 = p1 + 1" "g2 = g1" by auto
  from mem_month [OF 3 [unfolded st2 st3]] obtain m where
    m: "s2 = m @ s3" "month_text m" "p3 = p2 + length m" "g3 = g2 @ [m]"
    by (auto simp: month_text_def)
  from mem_dash [OF 4 [unfolded st3 st4]] have
    h2: "s3 = CHR ''-'' # s4" "p4 = p3 + 1" "g4 = g3" by auto
  from mem_day [OF 5 [unfolded st4]] obtain dd where
    d: "s4 = dd @ s'" "day_text dd" "e = p4 + length dd" "gs = g4 @ [dd]"
    by (auto simp: day_text_def month_text_def)
  have "length t = e + length s'"
    by (simp add: y h1 m h2 d)
  with assms(2) have "s' = []" by simp
  then have "t = [a, b, c, d] @ ''-'' @ m @ ''-'' @ dd" "gs = [[a, b, c, d], m, dd]"
    by (simp_all add: y h1 m h2 d)
  moreover have "year_text [a, b, c, d]"
    using y by (simp add: year_text_def)
  ultimately show ?thesis using m(2) d(2) by blast
qed

lemma prefix_run:
  assumes "year_text y" "month_text m" "1 \<le> digits_val m" "digits_val m \<le> 12"
  shows "run (Then (Group year_regex) (Then (Atom (Ch CHR ''-''))
            (Then (Group month_regex) (Then (Atom (Ch CHR ''-'')) k))))
           (0, y @ ''-'' @ m @ ''-'' @ r, [])
         = run k (length y + length m + 2, r, [y, m])"
proof -
  from assms(1) obtain y1 y2 y3 y4 where y: "y = [y1, y2, y3, y4]"
    "is_digit y1" "is_digit y2" "is_digit y3" "is_digit y4"
    by (elim year_textE)
  from assms(2) show ?thesis
  proof (cases rule: month_textE)
    case (1 a)
    with assms(3) have "1 \<le> digit_val a" by (simp add: digits_val_simps)
    from run_month_one [OF \<open>is_digit a\<close> this not_digit_lits(1)] show ?thesis
      using y 1 by (simp add: run_year eval_nat_numeral del: run.simps(7))
  next
    case (2 a b)
    with assms(3,4) have "1 \<le> digits_val [a, b]" "digits_val [a, b] \<le> 12" by simp_all
    from run_month_two [OF \<open>is_digit a\<close> \<open>is_digit b\<close> this] show ?thesis
      using y 2 by (simp add: run_year digit_not eval_nat_numeral del: run.simps(7))
  qed
qed

lemma day_run:
  assumes "day_text d" "1 \<le> digits_val (filter is_digit d)" "digits_val (filter is_digit d) \<le> 31"
  shows "\<exists>rest. run (Then (Group day_regex) Eps) (p, d, g) = (p + length d, [], g @ [d]) # rest"
  using assms(1)
proof (cases rule: day_textE)
  case (1 a)
  with assms(2) have "1 \<le> digit_val a" by (simp add: digits_val_simps)
  from run_day_one [OF \<open>is_digit a\<close> this] show ?thesis
    using 1 by (simp del: run.simps(7))
next
  case (2 a b)
  with assms(2,3) have "1 \<le> digits_val [a, b]" "digits_val [a, b] \<le> 31" by simp_all
  from run_day_two [OF \<open>is_digit a\<close> \<open>is_digit b\<close> this, of p g] obtain rest where
    "run (Group day_regex) (p, [a, b], g) = (p + 2, [], g @ [[a, b]]) # rest" by blast
  then show ?thesis
    using 2 by (simp del: run.simps(7))
next
  case (3 b)
  with assms(2) have "1 \<le> digit_val b" by (simp add: digits_val_simps not_digit_lits)
  from run_day_space [OF \<open>is_digit b\<close> this] show ?thesis
    using 3 by (simp del: run.simps(7))
qed

lemma full_match:
  assumes "year_text y" "month_text m" "day_text d"
    "1 \<le> digits_val m" "digits_val m \<le> 12"
    "1 \<le> digits_val (filter is_digit d)" "digits_val (filter is_digit d) \<le> 31"
  shows "re_match strptime_regex (y @ ''-'' @ m @ ''-'' @ d) =
           Some (length (y @ ''-'' @ m @ ''-'' @ d), [y, m, d])"
proof -
  obtain rest where "run (Then (Group day_regex) Eps) (length y + length m + 2, d, [y, m])
      = (length y + length m + 2 + length d, [], [y, m] @ [d]) # rest"
    using day_run [OF assms(3,6,7)] by blast
  then have "run strptime_regex (0, y @ ''-'' @ m @ ''-'' @ d, [])
      = (length y + length m + 2 + length d, [], [y, m, d]) # rest"
    unfolding strptime_regex_unfold prefix_run [OF assms(1,2,4,5)] by simp
  then show ?thesis by (simp add: re_match_def)
qed

lemma py_int_texts:
  "year_text y \<Longrightarrow> py_int y = Some (int (digits_val y))"
  "month_text m \<Longrightarrow> py_int m = Some (int (digits_val m))"
  "day_text d \<Longrightarrow> py_int d = Some (int (digits_val (filter is_digit d)))"
proof -
  show "year_text y \<Longrightarrow> py_int y = Some (int (digits_val y))"
    by (elim year_textE) (simp add: py_int_4)
  show "month_text m \<Longrightarrow> py_int m = Some (int (digits_val m))"
    by (elim month_textE) (simp_all add: py_int_1 py_int_2)
  show "day_text d \<Longrightarrow> py_int d = Some (int (digits_val (filter is_digit d)))"
    by (elim day_textE) (simp_all add: py_int_1 py_int_2 py_int_space not_digit_lits)
qed

lemma strptime_ymd_iff:
  "strptime_ymd t = Some ymd \<longleftrightarrow>
     (\<exists>y m d. t = y @ ''-'' @ m @ ''-'' @ d \<and> year_text y \<and> month_text m \<and> day_text d
        \<and> valid_date (int (digits_val y)) (int (digits_val m))
            (int (digits_val (filter is_digit d)))
        \<and> ymd = (digits_val y, digits_val m, digits_val (filter is_digit d)))"
proof
  assume a: "strptime_ymd t = Some ymd"
  then obtain e gs where m: "re_match strptime_regex t = Some (e, gs)"
    by (cases "re_match strptime_regex t") (auto simp: strptime_ymd_def)
  with a have e: "e = length t"
    by (auto simp: strptime_ymd_def split: list.splits if_splits)
  from match_shape [OF m e] obtain y mo d where s:
    "t = y @ ''-'' @ mo @ ''-'' @ d" "gs = [y, mo, d]" "year_text y" "month_text mo" "day_text d"
    by blast
  from a m e s show "\<exists>y m d. t = y @ ''-'' @ m @ ''-'' @ d \<and> year_text y \<and> month_text m \<and> day_text d
        \<and> valid_date (int (digits_val y)) (int (digits_val m))
            (int (digits_val (filter is_digit d)))
        \<and> ymd = (digits_val y, digits_val m, digits_val (filter is_digit d))"
    by (auto simp: strptime_ymd_def py_int_texts split: if_splits)
next
  assume "\<exists>y m d. t = y @ ''-'' @ m @ ''-'' @ d \<and> year_text y \<and> month_text m \<and> day_text d
        \<and> valid_date (int (digits_val y)) (int (digits_val m))
            (int (digits_val (filter is_digit d)))
        \<and> ymd = (digits_val y, digits_val m, digits_val (filter is_digit d))"
  then obtain y m d where s: "t = y @ ''-'' @ m @ ''-'' @ d" "year_text y" "month_text m"
    "day_text d"
    "valid_date (int (digits_val y)) (int (digits_val m)) (int (digits_val (filter is_digit d)))"
    "ymd = (digits_val y, digits_val m, digits_val (filter is_digit d))"
    by blast
  from s(5) have b: "1 \<le> digits_val m" "digits_val m \<le> 12"
    "1 \<le> digits_val (filter is_digit d)" "digits_val (filter is_digit d) \<le> 31"
    by (auto simp: valid_date_def days_in_month_def split: if_splits)
  from full_match [OF s(2,3,4) b] s show "strptime_ymd t = Some ymd"
    by (simp add: strptime_ymd_def py_int_texts)
qed

text \<open>
  C5, as stated, fails in both directions: \<^verbatim>\<open>2025-9-1\<close> is not of the strict pattern and
  is converted, and \<^verbatim>\<open>2025-02-30\<close> is of the strict pattern and is not.
\<close>

theorem parse_date_not_strict:
  "parse_date (Some ''2025-9-1'') = Some ''2025-09-01T00:00:00''
   \<and> \<not> strict_ymd (replace_newline ''-'' (py_strip ''2025-9-1''))
   \<and> strict_ymd (replace_newline ''-'' (py_strip ''2025-02-30''))
   \<and> parse_date (Some ''2025-02-30'') = None"
  by code_simp

text \<open>
  C5, as the code has it. The date normalizer returns a timestamp exactly when the
  text, trimmed and with its newlines read as hyphens, is \<open>y-m-d\<close> with a year of four
  digits, a month of one or two digits and a day of one or two digits (or of a space
  and a digit) that name a date of the calendar from the year 1 on; the timestamp is
  that date at midnight in ISO-8601. On every other text, and on \<^verbatim>\<open>None\<close>, the result
  is \<^verbatim>\<open>None\<close>; the exception of the conversion never leaves the function.
\<close>

theorem parse_date_exactly:
  "(parse_date (Some s) = Some r \<longleftrightarrow>
      (\<exists>y m d. replace_newline ''-'' (py_strip s) = y @ ''-'' @ m @ ''-'' @ d
         \<and> year_text y \<and> month_text m \<and> day_text d
         \<and> valid_date (int (digits_val y)) (int (digits_val m))
             (int (digits_val (filter is_digit d)))
         \<and> r = isoformat (digits_val y, digits_val m, digits_val (filter is_digit d))))
   \<and> parse_date None = None"
proof -
  have "parse_date (Some s) = Some r \<longleftrightarrow>
      (\<exists>ymd. strptime_ymd (replace_newline ''-'' (py_strip s)) = Some ymd \<and> r = isoformat ymd)"
  proof (cases "s = []")
    case True
    then show ?thesis
      by (simp add: parse_date_def py_strip_def replace_newline_def strptime_ymd_iff)
  next
    case False
    then show ?thesis by (auto simp: parse_date_def)
  qed
  moreover have "(\<exists>ymd. strptime_ymd (replace_newline ''-'' (py_strip s)) = Some ymd
        \<and> r = isoformat ymd) \<longleftrightarrow>
      (\<exists>y m d. replace_newline ''-'' (py_strip s) = y @ ''-'' @ m @ ''-'' @ d
         \<and> year_text y \<and> month_text m \<and> day_text d
         \<and> valid_date (int (digits_val y)) (int (digits_val m))
             (int (digits_val (filter is_digit d)))
         \<and> r = isoformat (digits_val y, digits_val m, digits_val (filter is_digit d)))"
    unfolding strptime_ymd_iff by blast
  moreover have "parse_date None = None"
    by (simp add: parse_date_def)
  ultimately show ?thesis by blast
qed

theorem parse_date_exactly_witness:
  "parse_date (Some ''2025-9-1'') = Some ''2025-09-01T00:00:00''
   \<and> (\<exists>y m d. replace_newline ''-'' (py_strip ''2025-9-1'') = y @ ''-'' @ m @ ''-'' @ d
         \<and> year_text y \<and> month_text m \<and> day_text d
         \<and> valid_date (int (digits_val y)) (int (digits_val m))
             (int (digits_val (filter is_digit d)))
         \<and> ''2025-09-01T00:00:00'' =
             isoformat (digits_val y, digits_val m, digits_val (filter is_digit d)))"
proof -
  have h: "parse_date (Some ''2025-9-1'') = Some ''2025-09-01T00:00:00''"
    by code_simp
  show ?thesis
    using h parse_date_exactly [of "''2025-9-1''" "''2025-09-01T00:00:00''"] by blast
qed

end
